theory Spec2Isabelle
  imports Main
begin

section \<open>Data model\<close>

text \<open>
  The exceptions the program can raise: the \<open>Exception\<close> of \<open>get_feature_from_fm\<close>
  (the spec's \<open>UnknownFeature\<close>), the \<open>KeyError\<close> of a dictionary read and the
  \<open>AttributeError\<close> of calling \<open>replace\<close> on \<open>None\<close>.
\<close>

datatype error = UnknownFeature string | KeyError string | AttributeError

text \<open>
  The feature model is the external library's object; the program only calls
  \<open>fm.get_feature_by_name\<close>, so it is the lookup function itself. A feature is an
  opaque, hashable handle \<open>'f\<close>.
\<close>

type_synonym 'f feature_model = "string \<Rightarrow> 'f option"

text \<open>\<open>Configuration.elements\<close>: a dictionary from features to booleans.\<close>

type_synonym 'f configuration = "'f \<Rightarrow> bool option"

text \<open>One attribute table: \<open>dict[str, str]\<close>.\<close>

type_synonym attributes = "string \<Rightarrow> string option"

text \<open>
  Modelled from the spec: the classes \<open>Variant\<close> and \<open>VariationPoint\<close> of the module
  \<open>variation_point\<close>, which is imported by \<open>main.py\<close> but is not part of the sources.
  A variant is \<open>{identifier: string, value: string|null}\<close>; a variation point is
  \<open>{feature, handler, variants}\<close> and is constructed with an empty variant list.
  The fields \<open>identifier\<close> and \<open>value\<close> are called \<open>ident\<close> and \<open>val\<close> here.
\<close>

record variant =
  ident :: string
  val :: "string option"

record 'f variation_point =
  feature :: 'f
  handler :: string
  variants :: "variant list"

definition VariationPoint :: "'f \<Rightarrow> string \<Rightarrow> 'f variation_point" where
  "VariationPoint f h = \<lparr>feature = f, handler = h, variants = []\<rparr>"

definition Variant :: "string \<Rightarrow> string option \<Rightarrow> variant" where
  "Variant i v = \<lparr>ident = i, val = v\<rparr>"

text \<open>
  A Python \<open>dict\<close> keeps its keys in insertion order, and assigning to a key that is
  already present keeps the key's position. The mapping model and the template map are
  iterated, so they are association lists with that assignment.
\<close>

type_synonym ('k, 'v) dict = "('k \<times> 'v) list"

fun dict_set :: "'k \<Rightarrow> 'v \<Rightarrow> ('k, 'v) dict \<Rightarrow> ('k, 'v) dict" where
  "dict_set k v [] = [(k, v)]"
| "dict_set k v ((k', v') # d) = (if k' = k then (k, v) # d else (k', v') # dict_set k v d)"

text \<open>\<open>d[k].variants.append(x)\<close> and the like: the object stored under \<open>k\<close> is changed.\<close>

fun dict_modify :: "'k \<Rightarrow> ('v \<Rightarrow> 'v) \<Rightarrow> ('k, 'v) dict \<Rightarrow> ('k, 'v) dict" where
  "dict_modify k f [] = []"
| "dict_modify k f ((k', v') # d) = (if k' = k then (k', f v') # d else (k', v') # dict_modify k f d)"

definition dict_keys :: "('k, 'v) dict \<Rightarrow> 'k list" where
  "dict_keys d = map fst d"

definition dict_values :: "('k, 'v) dict \<Rightarrow> 'v list" where
  "dict_values d = map snd d"

type_synonym 'f mapping_model = "(string, 'f variation_point) dict"

section \<open>Feature lookup\<close>

definition get_feature_from_fm :: "string \<Rightarrow> 'f feature_model \<Rightarrow> error + 'f" where
  "get_feature_from_fm feature_name fm =
     (case fm feature_name of
        Some f \<Rightarrow> Inr f
      | None \<Rightarrow> Inl (UnknownFeature feature_name))"

section \<open>Configuration parsing\<close>

text \<open>
  The XML document is read by the library; \<open>parse_configuration\<close> walks the children of
  the root, each with its attribute dictionary \<open>child.attrib\<close> (an association list here,
  read with \<open>map_of\<close>).
\<close>

type_synonym element = "(string \<times> string) list"

definition feature_selected :: "element \<Rightarrow> bool" where
  "feature_selected attrib =
     (if map_of attrib ''automatic'' \<noteq> None then map_of attrib ''automatic'' = Some ''selected''
      else if map_of attrib ''manual'' \<noteq> None then map_of attrib ''manual'' = Some ''selected''
      else False)"

fun parse_children :: "element list \<Rightarrow> 'f feature_model \<Rightarrow> 'f configuration \<Rightarrow> error + 'f configuration" where
  "parse_children [] fm features = Inr features"
| "parse_children (attrib # rest) fm features =
     (if attrib \<noteq> [] then
        (case map_of attrib ''name'' of
           None \<Rightarrow> Inl (KeyError ''name'')
         | Some feature_name \<Rightarrow>
             (case get_feature_from_fm feature_name fm of
                Inl e \<Rightarrow> Inl e
              | Inr feature_object \<Rightarrow>
                  parse_children rest fm (features(feature_object \<mapsto> feature_selected attrib))))
      else parse_children rest fm features)"

definition parse_configuration :: "element list \<Rightarrow> 'f feature_model \<Rightarrow> error + 'f configuration" where
  "parse_configuration root fm = parse_children root fm Map.empty"

section \<open>Loading the mapping model\<close>

text \<open>One row of the mapping table, with the names of the loop's local variables.\<close>

record row =
  vp_feature :: string
  vp_handler :: string
  variant_feature :: string
  variant_value :: string

definition row_variant :: "row \<Rightarrow> variant" where
  "row_variant r =
     Variant (variant_feature r) (if variant_value r = ''-'' then None else Some (variant_value r))"

definition append_variant :: "variant \<Rightarrow> 'f variation_point \<Rightarrow> 'f variation_point" where
  "append_variant x vp = vp\<lparr>variants := variants vp @ [x]\<rparr>"

definition load_row :: "'f feature_model \<Rightarrow> 'f mapping_model \<Rightarrow> row \<Rightarrow> error + 'f mapping_model" where
  "load_row fm variation_points r =
     (if CHR ''.'' \<in> set (variant_feature r) then
        (case get_feature_from_fm (vp_feature r) fm of
           Inl e \<Rightarrow> Inl e
         | Inr f \<Rightarrow>
             Inr (dict_modify (variant_feature r) (append_variant (row_variant r))
                    (dict_set (variant_feature r) (VariationPoint f (vp_handler r)) variation_points)))
      else if vp_feature r \<notin> set (dict_keys variation_points) then
        (case get_feature_from_fm (vp_feature r) fm of
           Inl e \<Rightarrow> Inl e
         | Inr f \<Rightarrow>
             Inr (dict_modify (vp_feature r) (append_variant (row_variant r))
                    (dict_set (vp_feature r) (VariationPoint f (vp_handler r)) variation_points)))
      else Inr (dict_modify (vp_feature r) (append_variant (row_variant r)) variation_points))"

fun load_rows :: "'f feature_model \<Rightarrow> row list \<Rightarrow> 'f mapping_model \<Rightarrow> error + 'f mapping_model" where
  "load_rows fm [] variation_points = Inr variation_points"
| "load_rows fm (r # rest) variation_points =
     (case load_row fm variation_points r of
        Inl e \<Rightarrow> Inl e
      | Inr variation_points' \<Rightarrow> load_rows fm rest variation_points')"

definition load_mapping_model :: "row list \<Rightarrow> 'f feature_model \<Rightarrow> error + 'f mapping_model" where
  "load_mapping_model rows fm = load_rows fm rows []"

section \<open>Variant resolution\<close>

definition is_selected_in_a_configuration :: "'f \<Rightarrow> 'f configuration list \<Rightarrow> bool" where
  "is_selected_in_a_configuration f configurations =
     list_ex (\<lambda>config. case config f of Some b \<Rightarrow> b | None \<Rightarrow> False) configurations"

fun get_attribute_value :: "string \<Rightarrow> attributes list \<Rightarrow> string option" where
  "get_attribute_value key [] = None"
| "get_attribute_value key (attributes_dict # rest) =
     (if attributes_dict key \<noteq> None then attributes_dict key
      else get_attribute_value key rest)"

text \<open>The two assignments of the loop body: the guard's feature name and the candidate value.\<close>

definition guard_name :: "variant \<Rightarrow> string" where
  "guard_name x =
     (if CHR ''.'' \<in> set (ident x) then takeWhile (\<lambda>c. c \<noteq> CHR ''.'') (ident x)
      else ident x)"

definition candidate :: "variant \<Rightarrow> attributes list \<Rightarrow> string option" where
  "candidate x attrs =
     (if CHR ''.'' \<in> set (ident x) then get_attribute_value (ident x) attrs
      else val x)"

fun first_variant :: "'f feature_model \<Rightarrow> variant list \<Rightarrow> 'f configuration list \<Rightarrow> attributes list
    \<Rightarrow> error + string option" where
  "first_variant fm [] configurations attrs = Inr None"
| "first_variant fm (x # rest) configurations attrs =
     (case get_feature_from_fm (guard_name x) fm of
        Inl e \<Rightarrow> Inl e
      | Inr f \<Rightarrow>
          if is_selected_in_a_configuration f configurations then Inr (candidate x attrs)
          else first_variant fm rest configurations attrs)"

definition get_variant_value :: "'f feature_model \<Rightarrow> 'f variation_point \<Rightarrow> 'f configuration list
    \<Rightarrow> attributes list \<Rightarrow> error + string option" where
  "get_variant_value fm variation_point configurations attrs =
     first_variant fm (variants variation_point) configurations attrs"

text \<open>The same loop for one configuration and one attribute table (\<open>attributes.get\<close>).\<close>

fun first_variant_in :: "'f feature_model \<Rightarrow> variant list \<Rightarrow> 'f configuration \<Rightarrow> attributes
    \<Rightarrow> error + string option" where
  "first_variant_in fm [] configuration attrs = Inr None"
| "first_variant_in fm (x # rest) configuration attrs =
     (case get_feature_from_fm (guard_name x) fm of
        Inl e \<Rightarrow> Inl e
      | Inr f \<Rightarrow>
          if (case configuration f of Some b \<Rightarrow> b | None \<Rightarrow> False)
          then Inr (if CHR ''.'' \<in> set (ident x) then attrs (ident x) else val x)
          else first_variant_in fm rest configuration attrs)"

definition get_variant_value_in_configuration :: "'f feature_model \<Rightarrow> 'f variation_point
    \<Rightarrow> 'f configuration \<Rightarrow> attributes \<Rightarrow> error + string option" where
  "get_variant_value_in_configuration fm variation_point configuration attrs =
     first_variant_in fm (variants variation_point) configuration attrs"

text \<open>
  The guard of a variant is satisfied when its feature exists and is selected in one of
  the configurations.
\<close>

definition guard_satisfied :: "'f feature_model \<Rightarrow> 'f configuration list \<Rightarrow> variant \<Rightarrow> bool" where
  "guard_satisfied fm configurations x =
     (case fm (guard_name x) of
        None \<Rightarrow> False
      | Some f \<Rightarrow> is_selected_in_a_configuration f configurations)"

text \<open>
  The guard of a variant is rejected when its feature exists and is selected in none of
  the configurations: the loop goes on to the next variant.
\<close>

definition guard_rejected :: "'f feature_model \<Rightarrow> 'f configuration list \<Rightarrow> variant \<Rightarrow> bool" where
  "guard_rejected fm configurations x =
     (case fm (guard_name x) of
        None \<Rightarrow> False
      | Some f \<Rightarrow> \<not> is_selected_in_a_configuration f configurations)"

section \<open>The template map\<close>

text \<open>A value of the template map: the boolean \<open>True\<close>, or what \<open>get_variant_value\<close> returned.\<close>

datatype template_value = PyTrue | PyValue "string option"

fun build_maps :: "'f feature_model \<Rightarrow> 'f variation_point list \<Rightarrow> 'f configuration list
    \<Rightarrow> attributes list \<Rightarrow> (string, template_value) dict \<Rightarrow> error + (string, template_value) dict" where
  "build_maps fm [] configurations attrs maps = Inr maps"
| "build_maps fm (vp # rest) configurations attrs maps =
     (if CHR ''.'' \<notin> set (handler vp) then
        if is_selected_in_a_configuration (feature vp) configurations then
          if variants vp = [] then
            build_maps fm rest configurations attrs (dict_set (handler vp) PyTrue maps)
          else if ident (hd (variants vp)) = ''-'' then
            build_maps fm rest configurations attrs (dict_set (handler vp) PyTrue maps)
          else
            (case get_variant_value fm vp configurations attrs of
               Inl e \<Rightarrow> Inl e
             | Inr v \<Rightarrow> build_maps fm rest configurations attrs (dict_set (handler vp) (PyValue v) maps))
        else build_maps fm rest configurations attrs maps
      else build_maps fm rest configurations attrs maps)"

definition build_template_maps :: "'f feature_model \<Rightarrow> 'f mapping_model \<Rightarrow> 'f configuration list
    \<Rightarrow> attributes list \<Rightarrow> error + (string, template_value) dict" where
  "build_template_maps fm mapping_model configurations attrs =
     build_maps fm (dict_values mapping_model) configurations attrs []"

text \<open>The two tests of the loop body that skip a variation point, and the test for \<open>True\<close>.\<close>

definition skipped :: "'f configuration list \<Rightarrow> 'f variation_point \<Rightarrow> bool" where
  "skipped configurations vp =
     (CHR ''.'' \<in> set (handler vp) \<or> \<not> is_selected_in_a_configuration (feature vp) configurations)"

definition presence_only :: "'f variation_point \<Rightarrow> bool" where
  "presence_only vp = (variants vp = [] \<or> ident (hd (variants vp)) = ''-'')"

section \<open>The specializer\<close>

text \<open>
  \<open>s.replace(old, new)\<close> of the Python library: every occurrence of \<open>old\<close> in \<open>s\<close>, found
  from left to right without overlap, becomes \<open>new\<close>; with an empty \<open>old\<close>, \<open>new\<close> is put
  before every character and at the end.
\<close>

function replace :: "string \<Rightarrow> string \<Rightarrow> string \<Rightarrow> string" where
  "replace old new s =
     (if old = [] then concat (map (\<lambda>c. new @ [c]) s) @ new
      else if s = [] then []
      else if take (length old) s = old then new @ replace old new (drop (length old) s)
      else hd s # replace old new (tl s))"
  by pat_completeness auto
termination
  by (relation "measure (\<lambda>(old, new, s). length s)") auto

declare replace.simps [simp del]

text \<open>The decimal digits of a natural number: \<open>str(i)\<close>, as the f-strings format an index.\<close>

definition digit :: "nat \<Rightarrow> char" where
  "digit n = ''0123456789'' ! n"

fun str :: "nat \<Rightarrow> string" where
  "str n = (if n < 10 then [digit n] else str (n div 10) @ [digit (n mod 10)])"

declare str.simps [simp del]

text \<open>
  The loop over \<open>v.variants\<close>: \<open>variant.value.replace\<close> raises \<open>AttributeError\<close> when the
  value is \<open>None\<close>.
\<close>

fun rename_values :: "nat \<Rightarrow> variant list \<Rightarrow> error + variant list" where
  "rename_values i [] = Inr []"
| "rename_values i (x # rest) =
     (case val x of
        None \<Rightarrow> Inl AttributeError
      | Some s \<Rightarrow>
          (case rename_values i rest of
             Inl e \<Rightarrow> Inl e
           | Inr rest' \<Rightarrow> Inr (x\<lparr>val := Some (replace ''Expr'' (''Expr'' @ str i) s)\<rparr> # rest')))"

definition specialize_point :: "nat \<Rightarrow> 'f variation_point \<Rightarrow> error + 'f variation_point" where
  "specialize_point i v =
     (if handler v = ''Expr'' then
        (case rename_values i (variants v) of
           Inl e \<Rightarrow> Inl e
         | Inr xs \<Rightarrow>
             Inr (v\<lparr>handler := (if i \<noteq> 0 then handler v @ str (i - 1) else handler v),
                    variants := xs\<rparr>))
      else Inr v)"

text \<open>
  The loop over the items of the copy. The model's values are immutable, so the deep
  copy is the model itself; the variation points of a loaded model share no objects.
\<close>

fun specialize_items :: "nat \<Rightarrow> 'f mapping_model \<Rightarrow> error + 'f mapping_model" where
  "specialize_items i [] = Inr []"
| "specialize_items i ((k, v) # rest) =
     (case specialize_point i v of
        Inl e \<Rightarrow> Inl e
      | Inr v' \<Rightarrow>
          (case specialize_items i rest of
             Inl e \<Rightarrow> Inl e
           | Inr rest' \<Rightarrow> Inr ((k, v') # rest')))"

text \<open>
  The loop over \<open>enumerate(configurations)\<close>. The list \<open>rec_features\<close> that the body
  computes from the configuration is not used, so only the index matters.
\<close>

fun specialize_each :: "'f mapping_model \<Rightarrow> nat \<Rightarrow> 'c list \<Rightarrow> error + 'f mapping_model list" where
  "specialize_each mapping_model i [] = Inr []"
| "specialize_each mapping_model i (config # rest) =
     (case specialize_items i mapping_model of
        Inl e \<Rightarrow> Inl e
      | Inr new_mapping_model \<Rightarrow>
          (case specialize_each mapping_model (Suc i) rest of
             Inl e \<Rightarrow> Inl e
           | Inr map_models \<Rightarrow> Inr (new_mapping_model # map_models)))"

definition mapping_model_by_configurations :: "'f mapping_model \<Rightarrow> 'f configuration list
    \<Rightarrow> error + 'f mapping_model list" where
  "mapping_model_by_configurations mapping_model configurations =
     specialize_each mapping_model 0 configurations"

text \<open>
  The mutation rule in the spec's words: a variation point with the handler \<open>Expr\<close>
  gets a new handler, and \<open>Expr\<close> becomes the new text in the values of its variants;
  any other variation point stays as it is.
\<close>

definition specialized :: "string \<Rightarrow> string \<Rightarrow> 'f variation_point \<Rightarrow> 'f variation_point" where
  "specialized new_handler new_text vp =
     (if handler vp = ''Expr'' then
        vp\<lparr>handler := new_handler,
           variants := map (\<lambda>x. x\<lparr>val := map_option (replace ''Expr'' new_text) (val x)\<rparr>) (variants vp)\<rparr>
      else vp)"

definition specialized_model :: "nat \<Rightarrow> 'f mapping_model \<Rightarrow> 'f mapping_model" where
  "specialized_model i mm =
     map (\<lambda>(k, vp). (k, specialized (if i = 0 then ''Expr'' else ''Expr'' @ str (i - 1)) (''Expr'' @ str i) vp)) mm"

text \<open>No variant of a variation point with the handler \<open>Expr\<close> has the null value.\<close>

definition expr_values_present :: "'f mapping_model \<Rightarrow> bool" where
  "expr_values_present mm =
     list_all (\<lambda>(k, vp). handler vp = ''Expr'' \<longrightarrow> list_all (\<lambda>x. val x \<noteq> None) (variants vp)) mm"

section \<open>The specializer on a store of objects\<close>

text \<open>
  Whether a copy shares objects with another copy or with the model it was made from
  cannot be said of values, so here the objects live in a store. A reference is the
  index of a cell, and an allocation appends a cell. There is one array of cells for
  each kind of object that the specializer can reach and change: the dictionaries, the
  variation points, the lists of variants and the variants. Strings, \<open>None\<close> and the
  features (the library compares them by name) are values inside the cells.
\<close>

type_synonym ref = nat

record 'f point_cell =
  cell_feature :: 'f
  cell_handler :: string
  cell_variants :: ref

record 'f store =
  dict_cells :: "(string \<times> ref) list list"
  point_cells :: "'f point_cell list"
  list_cells :: "ref list list"
  variant_cells :: "variant list"

text \<open>
  \<open>copy.deepcopy\<close> of the Python library keeps a memo from the objects it has copied
  to their copies, so that an object reached twice is copied once.
\<close>

record memo =
  memo_points :: "ref \<Rightarrow> ref option"
  memo_lists :: "ref \<Rightarrow> ref option"
  memo_variants :: "ref \<Rightarrow> ref option"

definition empty_memo :: memo where
  "empty_memo = \<lparr>memo_points = Map.empty, memo_lists = Map.empty, memo_variants = Map.empty\<rparr>"

definition copy_variant :: "ref \<Rightarrow> 'f store \<times> memo \<Rightarrow> ref \<times> 'f store \<times> memo" where
  "copy_variant r s =
     (case s of (h, m) \<Rightarrow>
        (case memo_variants m r of
           Some r' \<Rightarrow> (r', h, m)
         | None \<Rightarrow>
             (length (variant_cells h),
              h\<lparr>variant_cells := variant_cells h @ [variant_cells h ! r]\<rparr>,
              m\<lparr>memo_variants := (memo_variants m)(r \<mapsto> length (variant_cells h))\<rparr>)))"

fun copy_variants :: "ref list \<Rightarrow> 'f store \<times> memo \<Rightarrow> ref list \<times> 'f store \<times> memo" where
  "copy_variants [] s = ([], s)"
| "copy_variants (r # rs) s =
     (case copy_variant r s of (r', s1) \<Rightarrow>
        (case copy_variants rs s1 of (rs', s2) \<Rightarrow> (r' # rs', s2)))"

definition copy_list :: "ref \<Rightarrow> 'f store \<times> memo \<Rightarrow> ref \<times> 'f store \<times> memo" where
  "copy_list r s =
     (case s of (h, m) \<Rightarrow>
        (case memo_lists m r of
           Some r' \<Rightarrow> (r', h, m)
         | None \<Rightarrow>
             (case copy_variants (list_cells h ! r) (h, m) of (rs', h1, m1) \<Rightarrow>
                (length (list_cells h1),
                 h1\<lparr>list_cells := list_cells h1 @ [rs']\<rparr>,
                 m1\<lparr>memo_lists := (memo_lists m1)(r \<mapsto> length (list_cells h1))\<rparr>))))"

definition copy_point :: "ref \<Rightarrow> 'f store \<times> memo \<Rightarrow> ref \<times> 'f store \<times> memo" where
  "copy_point r s =
     (case s of (h, m) \<Rightarrow>
        (case memo_points m r of
           Some r' \<Rightarrow> (r', h, m)
         | None \<Rightarrow>
             (case copy_list (cell_variants (point_cells h ! r)) (h, m) of (l', h1, m1) \<Rightarrow>
                (length (point_cells h1),
                 h1\<lparr>point_cells := point_cells h1 @ [(point_cells h ! r)\<lparr>cell_variants := l'\<rparr>]\<rparr>,
                 m1\<lparr>memo_points := (memo_points m1)(r \<mapsto> length (point_cells h1))\<rparr>))))"

fun copy_items :: "(string \<times> ref) list \<Rightarrow> 'f store \<times> memo \<Rightarrow> (string \<times> ref) list \<times> 'f store \<times> memo" where
  "copy_items [] s = ([], s)"
| "copy_items ((k, r) # rest) s =
     (case copy_point r s of (r', s1) \<Rightarrow>
        (case copy_items rest s1 of (rest', s2) \<Rightarrow> ((k, r') # rest', s2)))"

definition deepcopy :: "ref \<Rightarrow> 'f store \<Rightarrow> ref \<times> 'f store" where
  "deepcopy d h =
     (case copy_items (dict_cells h ! d) (h, empty_memo) of (items', h1, m1) \<Rightarrow>
        (length (dict_cells h1), h1\<lparr>dict_cells := dict_cells h1 @ [items']\<rparr>))"

text \<open>The assignments of the specializer's loop body, on the cells of the copy.\<close>

definition set_value :: "nat \<Rightarrow> ref \<Rightarrow> 'f store \<Rightarrow> error + 'f store" where
  "set_value i r h =
     (case val (variant_cells h ! r) of
        None \<Rightarrow> Inl AttributeError
      | Some s \<Rightarrow>
          Inr (h\<lparr>variant_cells := (variant_cells h)
                 [r := (variant_cells h ! r)\<lparr>val := Some (replace ''Expr'' (''Expr'' @ str i) s)\<rparr>]\<rparr>))"

fun set_values :: "nat \<Rightarrow> ref list \<Rightarrow> 'f store \<Rightarrow> error + 'f store" where
  "set_values i [] h = Inr h"
| "set_values i (r # rs) h =
     (case set_value i r h of
        Inl e \<Rightarrow> Inl e
      | Inr h1 \<Rightarrow> set_values i rs h1)"

definition set_handler :: "nat \<Rightarrow> ref \<Rightarrow> 'f store \<Rightarrow> 'f store" where
  "set_handler i r h =
     h\<lparr>point_cells := (point_cells h)
         [r := (point_cells h ! r)\<lparr>cell_handler :=
                 (if i \<noteq> 0 then cell_handler (point_cells h ! r) @ str (i - 1)
                  else cell_handler (point_cells h ! r))\<rparr>]\<rparr>"

definition mutate_point :: "nat \<Rightarrow> ref \<Rightarrow> 'f store \<Rightarrow> error + 'f store" where
  "mutate_point i r h =
     (if cell_handler (point_cells h ! r) = ''Expr'' then
        set_values i (list_cells h ! cell_variants (point_cells h ! r)) (set_handler i r h)
      else Inr h)"

fun mutate_items :: "nat \<Rightarrow> (string \<times> ref) list \<Rightarrow> 'f store \<Rightarrow> error + 'f store" where
  "mutate_items i [] h = Inr h"
| "mutate_items i ((k, r) # rest) h =
     (case mutate_point i r h of
        Inl e \<Rightarrow> Inl e
      | Inr h1 \<Rightarrow> mutate_items i rest h1)"

fun copy_each :: "ref \<Rightarrow> nat \<Rightarrow> 'c list \<Rightarrow> 'f store \<Rightarrow> error + ref list \<times> 'f store" where
  "copy_each d i [] h = Inr ([], h)"
| "copy_each d i (config # rest) h =
     (case deepcopy d h of (d', h1) \<Rightarrow>
        (case mutate_items i (dict_cells h1 ! d') h1 of
           Inl e \<Rightarrow> Inl e
         | Inr h2 \<Rightarrow>
             (case copy_each d (Suc i) rest h2 of
                Inl e \<Rightarrow> Inl e
              | Inr (ds, h3) \<Rightarrow> Inr (d' # ds, h3))))"

definition mapping_model_by_configurations_store :: "ref \<Rightarrow> 'f configuration list \<Rightarrow> 'f store
    \<Rightarrow> error + ref list \<times> 'f store" where
  "mapping_model_by_configurations_store mapping_model configurations h =
     copy_each mapping_model 0 configurations h"

text \<open>The mapping model that a dictionary of the store stands for.\<close>

definition read_point :: "'f store \<Rightarrow> ref \<Rightarrow> 'f variation_point" where
  "read_point h r =
     \<lparr>feature = cell_feature (point_cells h ! r),
      handler = cell_handler (point_cells h ! r),
      variants = map (\<lambda>v. variant_cells h ! v) (list_cells h ! cell_variants (point_cells h ! r))\<rparr>"

definition read_model :: "'f store \<Rightarrow> ref \<Rightarrow> 'f mapping_model" where
  "read_model h d = map (\<lambda>(k, r). (k, read_point h r)) (dict_cells h ! d)"

text \<open>The cells that a dictionary reaches: its points, their lists, and the variants in them.\<close>

definition points_of :: "'f store \<Rightarrow> ref \<Rightarrow> ref set" where
  "points_of h d = snd ` set (dict_cells h ! d)"

definition lists_of :: "'f store \<Rightarrow> ref \<Rightarrow> ref set" where
  "lists_of h d = (\<lambda>r. cell_variants (point_cells h ! r)) ` points_of h d"

definition variants_of :: "'f store \<Rightarrow> ref \<Rightarrow> ref set" where
  "variants_of h d = (\<Union>l \<in> lists_of h d. set (list_cells h ! l))"

text \<open>A dictionary of the store and all that it reaches are allocated cells.\<close>

definition wf_model :: "'f store \<Rightarrow> ref \<Rightarrow> bool" where
  "wf_model h d \<longleftrightarrow>
     d < length (dict_cells h) \<and>
     (\<forall>p \<in> points_of h d. p < length (point_cells h)) \<and>
     (\<forall>l \<in> lists_of h d. l < length (list_cells h)) \<and>
     (\<forall>v \<in> variants_of h d. v < length (variant_cells h))"

text \<open>
  A later store \<open>h'\<close> that differs from \<open>h\<close> at most in the cells that the dictionary
  \<open>d\<close> reaches in \<open>h\<close>, and in cells allocated since: what any program does to \<open>h\<close> that
  changes the model \<open>d\<close> and nothing else.
\<close>

definition changes_only :: "ref \<Rightarrow> 'f store \<Rightarrow> 'f store \<Rightarrow> bool" where
  "changes_only d h h' \<longleftrightarrow>
     (\<forall>a < length (dict_cells h). a \<noteq> d \<longrightarrow> dict_cells h' ! a = dict_cells h ! a) \<and>
     (\<forall>a < length (point_cells h). a \<notin> points_of h d \<longrightarrow> point_cells h' ! a = point_cells h ! a) \<and>
     (\<forall>a < length (list_cells h). a \<notin> lists_of h d \<longrightarrow> list_cells h' ! a = list_cells h ! a) \<and>
     (\<forall>a < length (variant_cells h). a \<notin> variants_of h d \<longrightarrow> variant_cells h' ! a = variant_cells h ! a)"

text \<open>The store \<open>h'\<close> has every cell of \<open>h\<close>, with the same content.\<close>

definition extends :: "'f store \<Rightarrow> 'f store \<Rightarrow> bool" where
  "extends h h' \<longleftrightarrow>
     length (dict_cells h) \<le> length (dict_cells h') \<and>
     length (point_cells h) \<le> length (point_cells h') \<and>
     length (list_cells h) \<le> length (list_cells h') \<and>
     length (variant_cells h) \<le> length (variant_cells h') \<and>
     (\<forall>a < length (dict_cells h). dict_cells h' ! a = dict_cells h ! a) \<and>
     (\<forall>a < length (point_cells h). point_cells h' ! a = point_cells h ! a) \<and>
     (\<forall>a < length (list_cells h). list_cells h' ! a = list_cells h ! a) \<and>
     (\<forall>a < length (variant_cells h). variant_cells h' ! a = variant_cells h ! a)"

text \<open>
  The cells of \<open>h\<close> allocated since \<open>h0\<close> refer to cells allocated since \<open>h0\<close> only, and
  so does the memo.
\<close>

definition fresh_closed :: "'f store \<Rightarrow> 'f store \<Rightarrow> bool" where
  "fresh_closed h0 h \<longleftrightarrow>
     (\<forall>a. length (point_cells h0) \<le> a \<and> a < length (point_cells h) \<longrightarrow>
        length (list_cells h0) \<le> cell_variants (point_cells h ! a) \<and>
        cell_variants (point_cells h ! a) < length (list_cells h)) \<and>
     (\<forall>a. length (list_cells h0) \<le> a \<and> a < length (list_cells h) \<longrightarrow>
        (\<forall>v \<in> set (list_cells h ! a).
           length (variant_cells h0) \<le> v \<and> v < length (variant_cells h)))"

definition memo_fresh :: "'f store \<Rightarrow> 'f store \<Rightarrow> memo \<Rightarrow> bool" where
  "memo_fresh h0 h m \<longleftrightarrow>
     (\<forall>r r'. memo_points m r = Some r' \<longrightarrow>
        length (point_cells h0) \<le> r' \<and> r' < length (point_cells h)) \<and>
     (\<forall>r r'. memo_lists m r = Some r' \<longrightarrow>
        length (list_cells h0) \<le> r' \<and> r' < length (list_cells h)) \<and>
     (\<forall>r r'. memo_variants m r = Some r' \<longrightarrow>
        length (variant_cells h0) \<le> r' \<and> r' < length (variant_cells h))"

definition copy_inv :: "'f store \<Rightarrow> 'f store \<times> memo \<Rightarrow> bool" where
  "copy_inv h0 s \<longleftrightarrow>
     extends h0 (fst s) \<and> dict_cells (fst s) = dict_cells h0 \<and>
     fresh_closed h0 (fst s) \<and> memo_fresh h0 (fst s) (snd s)"

text \<open>
  From \<open>h\<close> to \<open>h'\<close> only handlers and values have changed, and only in cells allocated
  since \<open>h0\<close>.
\<close>

definition mutated :: "'f store \<Rightarrow> 'f store \<Rightarrow> 'f store \<Rightarrow> bool" where
  "mutated h0 h h' \<longleftrightarrow>
     dict_cells h' = dict_cells h \<and> list_cells h' = list_cells h \<and>
     length (point_cells h') = length (point_cells h) \<and>
     length (variant_cells h') = length (variant_cells h) \<and>
     (\<forall>a < length (point_cells h). cell_variants (point_cells h' ! a) = cell_variants (point_cells h ! a)) \<and>
     (\<forall>a < length (point_cells h0). point_cells h' ! a = point_cells h ! a) \<and>
     (\<forall>a < length (variant_cells h0). variant_cells h' ! a = variant_cells h ! a)"

text \<open>
  In the store \<open>h\<close>, the dictionary \<open>d\<close> and the cells it reaches were allocated after
  \<open>lo\<close> and are cells of \<open>hi\<close>.
\<close>

definition occupies :: "'f store \<Rightarrow> 'f store \<Rightarrow> 'f store \<Rightarrow> ref \<Rightarrow> bool" where
  "occupies lo hi h d \<longleftrightarrow>
     length (dict_cells lo) \<le> d \<and> d < length (dict_cells hi) \<and>
     (\<forall>p \<in> points_of h d. length (point_cells lo) \<le> p \<and> p < length (point_cells hi)) \<and>
     (\<forall>l \<in> lists_of h d. length (list_cells lo) \<le> l \<and> l < length (list_cells hi)) \<and>
     (\<forall>v \<in> variants_of h d. length (variant_cells lo) \<le> v \<and> v < length (variant_cells hi))"

text \<open>Two dictionaries of a store that are different objects and reach no common cell.\<close>

definition apart :: "'f store \<Rightarrow> ref \<Rightarrow> ref \<Rightarrow> bool" where
  "apart h a b \<longleftrightarrow>
     a \<noteq> b \<and> points_of h a \<inter> points_of h b = {} \<and> lists_of h a \<inter> lists_of h b = {} \<and>
     variants_of h a \<inter> variants_of h b = {}"

text \<open>
  The variants of a point of the store, the mapping model that a list of items stands
  for, and the stores in which every point, every list of variants and every variant
  of the items is an object of its own: no object is stored under two keys, in two
  points or twice in a list.
\<close>

definition variants_at :: "'f store \<Rightarrow> ref \<Rightarrow> ref list" where
  "variants_at h p = list_cells h ! cell_variants (point_cells h ! p)"

definition read_items :: "'f store \<Rightarrow> (string \<times> ref) list \<Rightarrow> 'f mapping_model" where
  "read_items h items = map (\<lambda>(k, r). (k, read_point h r)) items"

definition unshared_items :: "'f store \<Rightarrow> (string \<times> ref) list \<Rightarrow> bool" where
  "unshared_items h items \<longleftrightarrow>
     (\<forall>p \<in> snd ` set items.
        p < length (point_cells h) \<and> cell_variants (point_cells h ! p) < length (list_cells h) \<and>
        (\<forall>v \<in> set (variants_at h p). v < length (variant_cells h))) \<and>
     distinct (map snd items) \<and>
     distinct (map (\<lambda>p. cell_variants (point_cells h ! p)) (map snd items)) \<and>
     distinct (concat (map (variants_at h) (map snd items)))"

text \<open>
  The stores that differ from a store at most in the handlers of the points \<open>P\<close> and in
  the variants \<open>V\<close>.
\<close>

definition touched :: "ref set \<Rightarrow> ref set \<Rightarrow> 'f store \<Rightarrow> 'f store \<Rightarrow> bool" where
  "touched P V h h' \<longleftrightarrow>
     dict_cells h' = dict_cells h \<and> list_cells h' = list_cells h \<and>
     length (point_cells h') = length (point_cells h) \<and>
     length (variant_cells h') = length (variant_cells h) \<and>
     (\<forall>a < length (point_cells h). cell_variants (point_cells h' ! a) = cell_variants (point_cells h ! a)) \<and>
     (\<forall>a. a \<notin> P \<longrightarrow> point_cells h' ! a = point_cells h ! a) \<and>
     (\<forall>a. a \<notin> V \<longrightarrow> variant_cells h' ! a = variant_cells h ! a)"

text \<open>The store after a point that has not been copied yet is copied.\<close>

definition with_copy :: "'f store \<Rightarrow> ref \<Rightarrow> 'f store" where
  "with_copy h p =
     h\<lparr>variant_cells := variant_cells h @ map (\<lambda>r. variant_cells h ! r) (variants_at h p),
       list_cells := list_cells h @
         [[length (variant_cells h) ..< length (variant_cells h) + length (variants_at h p)]],
       point_cells := point_cells h @
         [(point_cells h ! p)\<lparr>cell_variants := length (list_cells h)\<rparr>]\<rparr>"

text \<open>A store with one mapping model, and the store after three specializations of it.\<close>

definition example_store :: "string store" where
  "example_store =
     \<lparr>dict_cells = [[(''Expr'', 0), (''Op'', 1)]],
      point_cells = [\<lparr>cell_feature = ''Expr'', cell_handler = ''Expr'', cell_variants = 0\<rparr>,
                     \<lparr>cell_feature = ''Op'', cell_handler = ''Op'', cell_variants = 1\<rparr>],
      list_cells = [[0], [1]],
      variant_cells = [\<lparr>ident = ''And'', val = Some ''(Expr And Expr)''\<rparr>,
                       \<lparr>ident = ''Add'', val = None\<rparr>]\<rparr>"

definition example_copies :: "string store" where
  "example_copies =
     \<lparr>dict_cells = [[(''Expr'', 0), (''Op'', 1)], [(''Expr'', 2), (''Op'', 3)],
                     [(''Expr'', 4), (''Op'', 5)], [(''Expr'', 6), (''Op'', 7)]],
      point_cells = [\<lparr>cell_feature = ''Expr'', cell_handler = ''Expr'', cell_variants = 0\<rparr>,
                     \<lparr>cell_feature = ''Op'', cell_handler = ''Op'', cell_variants = 1\<rparr>,
                     \<lparr>cell_feature = ''Expr'', cell_handler = ''Expr'', cell_variants = 2\<rparr>,
                     \<lparr>cell_feature = ''Op'', cell_handler = ''Op'', cell_variants = 3\<rparr>,
                     \<lparr>cell_feature = ''Expr'', cell_handler = ''Expr0'', cell_variants = 4\<rparr>,
                     \<lparr>cell_feature = ''Op'', cell_handler = ''Op'', cell_variants = 5\<rparr>,
                     \<lparr>cell_feature = ''Expr'', cell_handler = ''Expr1'', cell_variants = 6\<rparr>,
                     \<lparr>cell_feature = ''Op'', cell_handler = ''Op'', cell_variants = 7\<rparr>],
      list_cells = [[0], [1], [2], [3], [4], [5], [6], [7]],
      variant_cells = [\<lparr>ident = ''And'', val = Some ''(Expr And Expr)''\<rparr>,
                       \<lparr>ident = ''Add'', val = None\<rparr>,
                       \<lparr>ident = ''And'', val = Some ''(Expr0 And Expr0)''\<rparr>,
                       \<lparr>ident = ''Add'', val = None\<rparr>,
                       \<lparr>ident = ''And'', val = Some ''(Expr1 And Expr1)''\<rparr>,
                       \<lparr>ident = ''Add'', val = None\<rparr>,
                       \<lparr>ident = ''And'', val = Some ''(Expr2 And Expr2)''\<rparr>,
                       \<lparr>ident = ''Add'', val = None\<rparr>]\<rparr>"

text \<open>
  A store in which one variation point is stored under two keys, and the store after
  one specialization of it.
\<close>

definition aliased_store :: "string store" where
  "aliased_store =
     \<lparr>dict_cells = [[(''Expr'', 0), (''Alias'', 0)]],
      point_cells = [\<lparr>cell_feature = ''Expr'', cell_handler = ''Expr'', cell_variants = 0\<rparr>],
      list_cells = [[0]],
      variant_cells = [\<lparr>ident = ''And'', val = Some ''(Expr And Expr)''\<rparr>]\<rparr>"

definition aliased_copy :: "string store" where
  "aliased_copy =
     \<lparr>dict_cells = [[(''Expr'', 0), (''Alias'', 0)], [(''Expr'', 1), (''Alias'', 1)]],
      point_cells = [\<lparr>cell_feature = ''Expr'', cell_handler = ''Expr'', cell_variants = 0\<rparr>,
                     \<lparr>cell_feature = ''Expr'', cell_handler = ''Expr'', cell_variants = 1\<rparr>],
      list_cells = [[0], [1]],
      variant_cells = [\<lparr>ident = ''And'', val = Some ''(Expr And Expr)''\<rparr>,
                       \<lparr>ident = ''And'', val = Some ''(Expr00 And Expr00)''\<rparr>]\<rparr>"

text \<open>A store whose model has a variant with the null value in an \<open>Expr\<close> point.\<close>

definition null_store :: "string store" where
  "null_store =
     \<lparr>dict_cells = [[(''Expr'', 0)]],
      point_cells = [\<lparr>cell_feature = ''Expr'', cell_handler = ''Expr'', cell_variants = 0\<rparr>],
      list_cells = [[0, 1]],
      variant_cells = [\<lparr>ident = ''And'', val = Some ''(Expr And Expr)''\<rparr>,
                       \<lparr>ident = ''Lit'', val = None\<rparr>]\<rparr>"

section \<open>The points of a mapping table\<close>

text \<open>
  What \<open>load_mapping_model\<close> builds, said of the table. The key of a row is its variant
  identifier when that contains a dot, and its variation-point feature otherwise.
\<close>

definition row_key :: "row \<Rightarrow> string" where
  "row_key r = (if CHR ''.'' \<in> set (variant_feature r) then variant_feature r else vp_feature r)"

text \<open>
  The rows of key \<open>k\<close> whose variants are in the point stored under \<open>k\<close> at the end: a
  row with a dot in its identifier stores a new point, so the rows before it are gone.
\<close>

fun kept_rows :: "string \<Rightarrow> row list \<Rightarrow> row list" where
  "kept_rows k [] = []"
| "kept_rows k (r # rs) =
     (if row_key r = k \<and> \<not> list_ex (\<lambda>r'. row_key r' = k \<and> CHR ''.'' \<in> set (variant_feature r')) rs
      then r # kept_rows k rs else kept_rows k rs)"

definition point_of :: "'f feature_model \<Rightarrow> string \<Rightarrow> row list \<Rightarrow> 'f variation_point option" where
  "point_of fm k rows =
     (case kept_rows k rows of
        [] \<Rightarrow> None
      | r # rs \<Rightarrow>
          (case fm (vp_feature r) of
             None \<Rightarrow> None
           | Some f \<Rightarrow> Some \<lparr>feature = f, handler = vp_handler r, variants = map row_variant (r # rs)\<rparr>))"

text \<open>The keys in the order of their first rows.\<close>

definition first_keys :: "row list \<Rightarrow> string list" where
  "first_keys rows = rev (remdups (rev (map row_key rows)))"

section \<open>Attribute lookup\<close>

lemma get_attribute_value_none:
  "(\<forall>d \<in> set attrs. d k = None) \<Longrightarrow> get_attribute_value k attrs = None"
  by (induction attrs) auto

lemma get_attribute_value_first:
  "(\<forall>d \<in> set pre. d k = None) \<Longrightarrow> d k = Some v \<Longrightarrow>
   get_attribute_value k (pre @ d # post) = Some v"
  by (induction pre) auto

text \<open>
  C8. \<open>get_attribute_value\<close> returns the value of the first attribute set, in the
  supplied order, that contains the identifier: whatever sets come before it (none of
  them containing the identifier) and whatever sets follow. It returns \<open>None\<close> when no
  attribute set contains the identifier.
\<close>

theorem get_attribute_value_precedence:
  "((\<forall>d \<in> set pre. d k = None) \<and> d k = Some v \<longrightarrow>
      get_attribute_value k (pre @ d # post) = Some v) \<and>
   ((\<forall>d \<in> set attrs. d k = None) \<longrightarrow> get_attribute_value k attrs = None)"
  using get_attribute_value_first [of pre k d v post] get_attribute_value_none [of attrs k]
  by blast

theorem get_attribute_value_precedence_witness:
  "get_attribute_value ''Plot.width''
     [Map.empty(''Plot.height'' \<mapsto> ''3''),
      Map.empty(''Plot.width'' \<mapsto> ''10''),
      Map.empty(''Plot.width'' \<mapsto> ''20'')] = Some ''10'' \<and>
   get_attribute_value ''Plot.depth''
     [Map.empty(''Plot.height'' \<mapsto> ''3''), Map.empty(''Plot.width'' \<mapsto> ''10'')] = None"
  using get_attribute_value_precedence
    [of "[Map.empty(''Plot.height'' \<mapsto> ''3'')]" "''Plot.width''"
        "Map.empty(''Plot.width'' \<mapsto> ''10'')" "''10''"
        "[Map.empty(''Plot.width'' \<mapsto> ''20'')]"
        "[Map.empty(''Plot.height'' \<mapsto> ''3''), Map.empty(''Plot.width'' \<mapsto> ''10'')]"]
  by simp

section \<open>First match wins\<close>

lemma first_variant_skip:
  "(\<forall>p \<in> set pre. guard_rejected fm configurations p) \<Longrightarrow>
   first_variant fm (pre @ rest) configurations attrs = first_variant fm rest configurations attrs"
  by (induction pre)
     (auto simp: guard_rejected_def get_feature_from_fm_def split: option.splits)

lemma first_variant_hit:
  "guard_satisfied fm configurations x \<Longrightarrow>
   first_variant fm (x # post) configurations attrs = Inr (candidate x attrs)"
  by (auto simp: guard_satisfied_def get_feature_from_fm_def split: option.splits)

lemma first_variant_all_rejected:
  "(\<forall>p \<in> set xs. guard_rejected fm configurations p) \<Longrightarrow>
   first_variant fm xs configurations attrs = Inr None"
  using first_variant_skip [of xs fm configurations "[]" attrs] by simp

lemma first_variant_unknown:
  "fm (guard_name x) = None \<Longrightarrow>
   first_variant fm (x # post) configurations attrs = Inl (UnknownFeature (guard_name x))"
  by (simp add: get_feature_from_fm_def)

text \<open>
  C1, as the code has it. Variant resolution is first-match-wins in list order, over
  the variants whose guards name features of the feature model. When the variants
  before \<open>x\<close> have guards that are features selected in no configuration and the guard
  of \<open>x\<close> is selected in some configuration, \<open>get_variant_value\<close> returns the candidate
  value of \<open>x\<close>, whatever follows \<open>x\<close>; when every guard is a feature and none is
  selected it returns the null value. In particular, with variants \<open>[V1, V2]\<close> whose
  guards are both selected the result is the candidate value of \<open>V1\<close>. When the guard
  of \<open>x\<close> names no feature of the feature model, the loop stops at \<open>x\<close> with
  \<open>UnknownFeature\<close>, also when the guard of a later variant is selected.
\<close>

theorem get_variant_value_first_match:
  "(variants vp = pre @ x # post \<and>
    (\<forall>p \<in> set pre. guard_rejected fm configurations p) \<and>
    guard_satisfied fm configurations x \<longrightarrow>
      get_variant_value fm vp configurations attrs = Inr (candidate x attrs)) \<and>
   ((\<forall>p \<in> set (variants vp). guard_rejected fm configurations p) \<longrightarrow>
      get_variant_value fm vp configurations attrs = Inr None) \<and>
   (variants vp = [v1, v2] \<and> guard_satisfied fm configurations v1 \<and>
    guard_satisfied fm configurations v2 \<longrightarrow>
      get_variant_value fm vp configurations attrs = Inr (candidate v1 attrs)) \<and>
   (variants vp = pre @ x # post \<and>
    (\<forall>p \<in> set pre. guard_rejected fm configurations p) \<and>
    fm (guard_name x) = None \<longrightarrow>
      get_variant_value fm vp configurations attrs = Inl (UnknownFeature (guard_name x)))"
proof (intro conjI impI)
  assume a: "variants vp = pre @ x # post \<and>
    (\<forall>p \<in> set pre. guard_rejected fm configurations p) \<and>
    guard_satisfied fm configurations x"
  then have "first_variant fm (pre @ x # post) configurations attrs =
      first_variant fm (x # post) configurations attrs"
    using first_variant_skip by blast
  with a show "get_variant_value fm vp configurations attrs = Inr (candidate x attrs)"
    by (simp only: get_variant_value_def first_variant_hit)
next
  assume "\<forall>p \<in> set (variants vp). guard_rejected fm configurations p"
  then show "get_variant_value fm vp configurations attrs = Inr None"
    by (simp only: get_variant_value_def first_variant_all_rejected)
next
  assume "variants vp = [v1, v2] \<and> guard_satisfied fm configurations v1 \<and>
    guard_satisfied fm configurations v2"
  then show "get_variant_value fm vp configurations attrs = Inr (candidate v1 attrs)"
    by (simp only: get_variant_value_def first_variant_hit)
next
  assume a: "variants vp = pre @ x # post \<and>
    (\<forall>p \<in> set pre. guard_rejected fm configurations p) \<and> fm (guard_name x) = None"
  then have "first_variant fm (pre @ x # post) configurations attrs =
      first_variant fm (x # post) configurations attrs"
    using first_variant_skip by blast
  with a show "get_variant_value fm vp configurations attrs = Inl (UnknownFeature (guard_name x))"
    by (simp only: get_variant_value_def first_variant_unknown)
qed

theorem get_variant_value_first_match_witness:
  "get_variant_value (Map.empty(''F1'' \<mapsto> ''F1'', ''F2'' \<mapsto> ''F2'', ''F3'' \<mapsto> ''F3''))
     \<lparr>feature = ''Op'', handler = ''Op'',
      variants = [Variant ''F3'' (Some ''c''), Variant ''F1'' (Some ''a''), Variant ''F2'' (Some ''b'')]\<rparr>
     [Map.empty(''F1'' \<mapsto> True, ''F2'' \<mapsto> True, ''F3'' \<mapsto> False)] [] = Inr (Some ''a'') \<and>
   get_variant_value (Map.empty(''F1'' \<mapsto> ''F1'', ''F2'' \<mapsto> ''F2'', ''F3'' \<mapsto> ''F3''))
     \<lparr>feature = ''Op'', handler = ''Op'',
      variants = [Variant ''F3'' (Some ''c'')]\<rparr>
     [Map.empty(''F1'' \<mapsto> True, ''F2'' \<mapsto> True, ''F3'' \<mapsto> False)] [] = Inr None \<and>
   get_variant_value (Map.empty(''F1'' \<mapsto> ''F1'', ''F2'' \<mapsto> ''F2'', ''F3'' \<mapsto> ''F3''))
     \<lparr>feature = ''Op'', handler = ''Op'',
      variants = [Variant ''F1'' (Some ''a''), Variant ''F2'' (Some ''b'')]\<rparr>
     [Map.empty(''F1'' \<mapsto> True, ''F2'' \<mapsto> True, ''F3'' \<mapsto> False)] [] = Inr (Some ''a'') \<and>
   get_variant_value (Map.empty(''F1'' \<mapsto> ''F1'', ''F2'' \<mapsto> ''F2'', ''F3'' \<mapsto> ''F3''))
     \<lparr>feature = ''Op'', handler = ''Op'',
      variants = [Variant ''F3'' (Some ''c''), Variant ''F4'' (Some ''d''), Variant ''F1'' (Some ''a'')]\<rparr>
     [Map.empty(''F1'' \<mapsto> True, ''F2'' \<mapsto> True, ''F3'' \<mapsto> False)] [] = Inl (UnknownFeature ''F4'')"
proof -
  let ?fm = "Map.empty(''F1'' \<mapsto> ''F1'', ''F2'' \<mapsto> ''F2'', ''F3'' \<mapsto> ''F3'')"
  let ?v4 = "Variant ''F4'' (Some ''d'')"
  let ?c = "[Map.empty(''F1'' \<mapsto> True, ''F2'' \<mapsto> True, ''F3'' \<mapsto> False)]"
  let ?v1 = "Variant ''F1'' (Some ''a'')"
  let ?v2 = "Variant ''F2'' (Some ''b'')"
  let ?v3 = "Variant ''F3'' (Some ''c'')"
  have s1: "guard_satisfied ?fm ?c ?v1" and s2: "guard_satisfied ?fm ?c ?v2"
    and r3: "guard_rejected ?fm ?c ?v3"
    by (simp_all add: guard_satisfied_def guard_rejected_def guard_name_def Variant_def
          is_selected_in_a_configuration_def)
  have c1: "candidate ?v1 [] = Some ''a''"
    by (simp add: candidate_def Variant_def)
  have u4: "guard_name ?v4 = ''F4''" "?fm ''F4'' = None"
    by (simp_all add: guard_name_def Variant_def)
  show ?thesis
    using s1 s2 r3 c1 u4
      get_variant_value_first_match
        [of "\<lparr>feature = ''Op'', handler = ''Op'', variants = [?v3, ?v4, ?v1]\<rparr>"
            "[?v3]" ?v4 "[?v1]" ?fm ?c "[]" ?v1 ?v2]
      get_variant_value_first_match
        [of "\<lparr>feature = ''Op'', handler = ''Op'', variants = [?v3, ?v1, ?v2]\<rparr>"
            "[?v3]" ?v1 "[?v2]" ?fm ?c "[]" ?v1 ?v2]
      get_variant_value_first_match
        [of "\<lparr>feature = ''Op'', handler = ''Op'', variants = [?v3]\<rparr>"
            "[]" ?v3 "[]" ?fm ?c "[]" ?v1 ?v2]
      get_variant_value_first_match
        [of "\<lparr>feature = ''Op'', handler = ''Op'', variants = [?v1, ?v2]\<rparr>"
            "[]" ?v1 "[?v2]" ?fm ?c "[]" ?v1 ?v2]
    by simp
qed

theorem get_variant_value_unknown_guard_counterexample:
  "guard_satisfied (Map.empty(''F1'' \<mapsto> ''F1'')) [Map.empty(''F1'' \<mapsto> True)]
     (Variant ''F1'' (Some ''a'')) \<and>
   get_variant_value (Map.empty(''F1'' \<mapsto> ''F1''))
     \<lparr>feature = ''Op'', handler = ''Op'',
      variants = [Variant ''Ghost'' (Some ''g''), Variant ''F1'' (Some ''a'')]\<rparr>
     [Map.empty(''F1'' \<mapsto> True)] [] = Inl (UnknownFeature ''Ghost'') \<and>
   \<not> guard_satisfied (Map.empty(''F1'' \<mapsto> ''F1'')) [Map.empty(''F1'' \<mapsto> True)]
     (Variant ''Ghost'' (Some ''g'')) \<and>
   get_variant_value (Map.empty(''F1'' \<mapsto> ''F1''))
     \<lparr>feature = ''Op'', handler = ''Op'', variants = [Variant ''Ghost'' (Some ''g'')]\<rparr>
     [Map.empty(''F1'' \<mapsto> True)] [] = Inl (UnknownFeature ''Ghost'')"
  by (simp add: get_variant_value_def get_feature_from_fm_def guard_satisfied_def guard_name_def
        Variant_def is_selected_in_a_configuration_def)

section \<open>Unknown features\<close>

lemma parse_children_append:
  "parse_children (pre @ rest) fm c0 =
     (case parse_children pre fm c0 of Inl e \<Rightarrow> Inl e | Inr c \<Rightarrow> parse_children rest fm c)"
  by (induction pre arbitrary: c0) (auto split: option.splits sum.splits)

lemma load_rows_append:
  "load_rows fm (pre @ rest) d0 =
     (case load_rows fm pre d0 of Inl e \<Rightarrow> Inl e | Inr d \<Rightarrow> load_rows fm rest d)"
  by (induction pre arbitrary: d0) (auto split: sum.splits)

lemma first_variant_in_eq:
  "first_variant_in fm xs c a = first_variant fm xs [c] [a]"
  by (induction xs)
     (auto simp: is_selected_in_a_configuration_def candidate_def split: sum.splits option.splits)

lemma get_variant_value_in_configuration_eq:
  "get_variant_value_in_configuration fm vp c a = get_variant_value fm vp [c] [a]"
  by (simp add: get_variant_value_in_configuration_def get_variant_value_def first_variant_in_eq)

text \<open>
  C9. A lookup of a feature name that the feature model does not have raises
  \<open>UnknownFeature\<close> for that name, and the caller stops there: whatever records, rows
  or variants follow, the result of \<open>parse_configuration\<close>, of \<open>load_mapping_model\<close>,
  of \<open>get_variant_value\<close> and of \<open>get_variant_value_in_configuration\<close> is that error.
  The lookup happens in \<open>parse_configuration\<close> for a record with attributes, in
  \<open>load_mapping_model\<close> for a row that creates a variation point, and in the two
  resolvers for a variant that the loop reaches.
\<close>

theorem unknown_feature_is_fatal:
  "(fm n = None \<longrightarrow> get_feature_from_fm n fm = Inl (UnknownFeature n)) \<and>
   (parse_configuration before fm = Inr c \<and> attrib \<noteq> [] \<and> map_of attrib ''name'' = Some n \<and>
    fm n = None \<longrightarrow>
      parse_configuration (before @ attrib # after) fm = Inl (UnknownFeature n)) \<and>
   (load_mapping_model rows fm = Inr vps \<and>
    (CHR ''.'' \<in> set (variant_feature r) \<or> vp_feature r \<notin> set (dict_keys vps)) \<and>
    fm (vp_feature r) = None \<longrightarrow>
      load_mapping_model (rows @ r # rows') fm = Inl (UnknownFeature (vp_feature r))) \<and>
   (variants vp = pre @ x # post \<and> (\<forall>p \<in> set pre. guard_rejected fm configurations p) \<and>
    fm (guard_name x) = None \<longrightarrow>
      get_variant_value fm vp configurations attrs = Inl (UnknownFeature (guard_name x))) \<and>
   (variants vp = pre @ x # post \<and> (\<forall>p \<in> set pre. guard_rejected fm [configuration] p) \<and>
    fm (guard_name x) = None \<longrightarrow>
      get_variant_value_in_configuration fm vp configuration table
        = Inl (UnknownFeature (guard_name x)))"
proof (intro conjI impI)
  assume "fm n = None"
  then show "get_feature_from_fm n fm = Inl (UnknownFeature n)"
    by (simp add: get_feature_from_fm_def)
next
  assume "parse_configuration before fm = Inr c \<and> attrib \<noteq> [] \<and>
    map_of attrib ''name'' = Some n \<and> fm n = None"
  then show "parse_configuration (before @ attrib # after) fm = Inl (UnknownFeature n)"
    by (simp add: parse_configuration_def parse_children_append get_feature_from_fm_def)
next
  assume a: "load_mapping_model rows fm = Inr vps \<and>
    (CHR ''.'' \<in> set (variant_feature r) \<or> vp_feature r \<notin> set (dict_keys vps)) \<and>
    fm (vp_feature r) = None"
  then have "load_row fm vps r = Inl (UnknownFeature (vp_feature r))"
    by (auto simp: load_row_def get_feature_from_fm_def)
  with a show "load_mapping_model (rows @ r # rows') fm = Inl (UnknownFeature (vp_feature r))"
    by (simp add: load_mapping_model_def load_rows_append)
next
  assume a: "variants vp = pre @ x # post \<and>
    (\<forall>p \<in> set pre. guard_rejected fm configurations p) \<and> fm (guard_name x) = None"
  then have "first_variant fm (pre @ x # post) configurations attrs =
      first_variant fm (x # post) configurations attrs"
    using first_variant_skip by blast
  with a show "get_variant_value fm vp configurations attrs = Inl (UnknownFeature (guard_name x))"
    by (simp only: get_variant_value_def first_variant_unknown)
next
  assume a: "variants vp = pre @ x # post \<and>
    (\<forall>p \<in> set pre. guard_rejected fm [configuration] p) \<and> fm (guard_name x) = None"
  then have "first_variant fm (pre @ x # post) [configuration] [table] =
      first_variant fm (x # post) [configuration] [table]"
    using first_variant_skip by blast
  with a show "get_variant_value_in_configuration fm vp configuration table
      = Inl (UnknownFeature (guard_name x))"
    by (simp only: get_variant_value_in_configuration_eq get_variant_value_def first_variant_unknown)
qed

theorem unknown_feature_is_fatal_witness:
  "get_feature_from_fm ''Ghost'' (Map.empty(''A'' \<mapsto> ''A'')) = Inl (UnknownFeature ''Ghost'') \<and>
   parse_configuration
     [[(''name'', ''A''), (''manual'', ''selected'')], [(''name'', ''Ghost'')], [(''name'', ''A'')]]
     (Map.empty(''A'' \<mapsto> ''A'')) = Inl (UnknownFeature ''Ghost'') \<and>
   load_mapping_model
     [\<lparr>vp_feature = ''A'', vp_handler = ''a'', variant_feature = ''A'', variant_value = ''x''\<rparr>,
      \<lparr>vp_feature = ''Ghost'', vp_handler = ''g'', variant_feature = ''A'', variant_value = ''y''\<rparr>,
      \<lparr>vp_feature = ''A'', vp_handler = ''a'', variant_feature = ''A'', variant_value = ''z''\<rparr>]
     (Map.empty(''A'' \<mapsto> ''A'')) = Inl (UnknownFeature ''Ghost'') \<and>
   get_variant_value (Map.empty(''A'' \<mapsto> ''A''))
     \<lparr>feature = ''A'', handler = ''a'',
      variants = [Variant ''A'' (Some ''x''), Variant ''Ghost.size'' None, Variant ''A'' (Some ''z'')]\<rparr>
     [Map.empty(''A'' \<mapsto> False)] [] = Inl (UnknownFeature ''Ghost'') \<and>
   get_variant_value_in_configuration (Map.empty(''A'' \<mapsto> ''A''))
     \<lparr>feature = ''A'', handler = ''a'',
      variants = [Variant ''A'' (Some ''x''), Variant ''Ghost.size'' None, Variant ''A'' (Some ''z'')]\<rparr>
     (Map.empty(''A'' \<mapsto> False)) Map.empty = Inl (UnknownFeature ''Ghost'')"
proof -
  let ?fm = "Map.empty(''A'' \<mapsto> ''A'')"
  let ?r1 = "\<lparr>vp_feature = ''A'', vp_handler = ''a'', variant_feature = ''A'', variant_value = ''x''\<rparr>"
  let ?r2 = "\<lparr>vp_feature = ''Ghost'', vp_handler = ''g'', variant_feature = ''A'', variant_value = ''y''\<rparr>"
  let ?r3 = "\<lparr>vp_feature = ''A'', vp_handler = ''a'', variant_feature = ''A'', variant_value = ''z''\<rparr>"
  let ?vps = "[(''A'', \<lparr>feature = ''A'', handler = ''a'', variants = [Variant ''A'' (Some ''x'')]\<rparr>)]"
  let ?vp = "\<lparr>feature = ''A'', handler = ''a'',
      variants = [Variant ''A'' (Some ''x''), Variant ''Ghost.size'' None, Variant ''A'' (Some ''z'')]\<rparr>"
  have g: "?fm ''Ghost'' = None" by simp
  have p: "parse_configuration [[(''name'', ''A''), (''manual'', ''selected'')]] ?fm
      = Inr (Map.empty(''A'' \<mapsto> True))"
    by (simp add: parse_configuration_def get_feature_from_fm_def feature_selected_def)
  have pa: "[(''name'', ''Ghost'')] \<noteq> []" "map_of [(''name'', ''Ghost'')] ''name'' = Some ''Ghost''"
    by simp_all
  have l: "load_mapping_model [?r1] ?fm = Inr ?vps"
    by (simp add: load_mapping_model_def load_row_def get_feature_from_fm_def dict_keys_def
          VariationPoint_def append_variant_def row_variant_def)
  have la: "CHR ''.'' \<in> set (variant_feature ?r2) \<or> vp_feature ?r2 \<notin> set (dict_keys ?vps)"
    "?fm (vp_feature ?r2) = None"
    by (simp_all add: dict_keys_def)
  have v: "variants ?vp = [Variant ''A'' (Some ''x'')] @ Variant ''Ghost.size'' None # [Variant ''A'' (Some ''z'')]"
    "\<forall>p \<in> set [Variant ''A'' (Some ''x'')]. guard_rejected ?fm [Map.empty(''A'' \<mapsto> False)] p"
    "guard_name (Variant ''Ghost.size'' None) = ''Ghost''"
    by (simp_all add: guard_rejected_def guard_name_def Variant_def is_selected_in_a_configuration_def)
  have vg: "?fm (guard_name (Variant ''Ghost.size'' None)) = None"
    by (simp add: v(3))
  note t = unknown_feature_is_fatal
    [of ?fm "''Ghost''" "[[(''name'', ''A''), (''manual'', ''selected'')]]" "Map.empty(''A'' \<mapsto> True)"
        "[(''name'', ''Ghost'')]" "[[(''name'', ''A'')]]" "[?r1]" ?vps ?r2 "[?r3]" ?vp
        "[Variant ''A'' (Some ''x'')]" "Variant ''Ghost.size'' None" "[Variant ''A'' (Some ''z'')]"
        "[Map.empty(''A'' \<mapsto> False)]" "[]" "Map.empty(''A'' \<mapsto> False)" Map.empty]
  have c1: "get_feature_from_fm ''Ghost'' ?fm = Inl (UnknownFeature ''Ghost'')"
    using t g by blast
  have c2: "parse_configuration ([[(''name'', ''A''), (''manual'', ''selected'')]] @ [(''name'', ''Ghost'')] # [[(''name'', ''A'')]]) ?fm
      = Inl (UnknownFeature ''Ghost'')"
    using t g p pa by blast
  have c3: "load_mapping_model ([?r1] @ ?r2 # [?r3]) ?fm = Inl (UnknownFeature (vp_feature ?r2))"
    using t l la by blast
  have c4: "get_variant_value ?fm ?vp [Map.empty(''A'' \<mapsto> False)] []
      = Inl (UnknownFeature (guard_name (Variant ''Ghost.size'' None)))"
    using t v(1,2) vg by blast
  have c5: "get_variant_value_in_configuration ?fm ?vp (Map.empty(''A'' \<mapsto> False)) Map.empty
      = Inl (UnknownFeature (guard_name (Variant ''Ghost.size'' None)))"
    using t v(1,2) vg by blast
  from c1 c2 c3 c4 c5 show ?thesis
    by (simp add: v(3))
qed

section \<open>Selection precedence\<close>

text \<open>A record resolves to the feature \<open>f\<close> when it has attributes and its name is \<open>f\<close>'s.\<close>

lemma parse_children_keeps:
  "parse_children rest fm c0 = Inr cfg \<Longrightarrow>
   (\<forall>a \<in> set rest. \<forall>m. a \<noteq> [] \<and> map_of a ''name'' = Some m \<longrightarrow> fm m \<noteq> Some f) \<Longrightarrow>
   cfg f = c0 f"
proof (induction rest arbitrary: c0)
  case Nil
  then show ?case by simp
next
  case (Cons a rest)
  show ?case
  proof (cases "a = []")
    case True
    with Cons show ?thesis by simp
  next
    case False
    with Cons.prems(1) obtain m g where m: "map_of a ''name'' = Some m" and g: "fm m = Some g"
      and run: "parse_children rest fm (c0(g \<mapsto> feature_selected a)) = Inr cfg"
      by (auto simp: get_feature_from_fm_def split: option.splits)
    from Cons.prems(2) False m g have "g \<noteq> f" by auto
    moreover have "cfg f = (c0(g \<mapsto> feature_selected a)) f"
      using Cons.IH [OF run] Cons.prems(2) by simp
    ultimately show ?thesis by simp
  qed
qed

lemma parse_children_total:
  "(\<forall>a \<in> set root. a \<noteq> [] \<longrightarrow> (\<exists>m g. map_of a ''name'' = Some m \<and> fm m = Some g)) \<Longrightarrow>
   \<exists>cfg. parse_children root fm c0 = Inr cfg"
proof (induction root arbitrary: c0)
  case Nil
  then show ?case by simp
next
  case (Cons a root)
  then show ?case
    by (cases "a = []") (auto simp: get_feature_from_fm_def)
qed

lemma parse_configuration_record:
  assumes ok: "\<forall>a \<in> set (before @ attrib # after).
      a \<noteq> [] \<longrightarrow> (\<exists>m g. map_of a ''name'' = Some m \<and> fm m = Some g)"
    and rec: "attrib \<noteq> []" "map_of attrib ''name'' = Some n" "fm n = Some f"
    and last: "\<forall>a \<in> set after. \<forall>m. a \<noteq> [] \<and> map_of a ''name'' = Some m \<longrightarrow> fm m \<noteq> Some f"
  shows "\<exists>cfg. parse_configuration (before @ attrib # after) fm = Inr cfg \<and>
           cfg f = Some (feature_selected attrib)"
proof -
  from ok have "\<exists>c. parse_children before fm Map.empty = Inr c"
    by (intro parse_children_total) auto
  then obtain c where c: "parse_children before fm Map.empty = Inr c" ..
  from ok have "\<exists>cfg. parse_children after fm (c(f \<mapsto> feature_selected attrib)) = Inr cfg"
    by (intro parse_children_total) auto
  then obtain cfg where cfg: "parse_children after fm (c(f \<mapsto> feature_selected attrib)) = Inr cfg" ..
  have "cfg f = (c(f \<mapsto> feature_selected attrib)) f"
    using parse_children_keeps [OF cfg last] .
  with c cfg rec show ?thesis
    by (simp add: parse_configuration_def parse_children_append get_feature_from_fm_def)
qed

lemma parse_children_returns:
  "parse_children root fm c0 = Inr cfg \<Longrightarrow>
   \<forall>a \<in> set root. a \<noteq> [] \<longrightarrow> (\<exists>m g. map_of a ''name'' = Some m \<and> fm m = Some g)"
proof (induction root arbitrary: c0)
  case Nil
  show ?case by simp
next
  case (Cons a root)
  show ?case
  proof (cases "a = []")
    case True
    with Cons show ?thesis by simp
  next
    case False
    with Cons.prems obtain m g where m: "map_of a ''name'' = Some m" and g: "fm m = Some g"
      and run: "parse_children root fm (c0(g \<mapsto> feature_selected a)) = Inr cfg"
      by (auto simp: get_feature_from_fm_def split: option.splits)
    from Cons.IH [OF run] m g show ?thesis by simp
  qed
qed

text \<open>
  C7. \<open>parse_configuration\<close> returns a configuration exactly for the files whose
  records with attributes name features of the feature model. In that configuration a
  record's feature is selected as the record says: by \<open>automatic == "selected"\<close> when
  the record has an \<open>automatic\<close> attribute; otherwise by \<open>manual == "selected"\<close> when it
  has a \<open>manual\<close> attribute; otherwise not at all (\<open>False\<close>). The record is the last one
  of the file for its feature: a later record for the same feature assigns the entry
  again, by the same rule.
\<close>

theorem parse_configuration_precedence:
  "((\<forall>a \<in> set (before @ attrib # after).
       a \<noteq> [] \<longrightarrow> (\<exists>m g. map_of a ''name'' = Some m \<and> fm m = Some g)) \<and>
    attrib \<noteq> [] \<and> map_of attrib ''name'' = Some n \<and> fm n = Some f \<and>
    (\<forall>a \<in> set after. \<forall>m. a \<noteq> [] \<and> map_of a ''name'' = Some m \<longrightarrow> fm m \<noteq> Some f) \<longrightarrow>
      (\<exists>cfg. parse_configuration (before @ attrib # after) fm = Inr cfg \<and>
         (\<forall>a. map_of attrib ''automatic'' = Some a \<longrightarrow> cfg f = Some (a = ''selected'')) \<and>
         (\<forall>m. map_of attrib ''automatic'' = None \<and> map_of attrib ''manual'' = Some m \<longrightarrow>
                cfg f = Some (m = ''selected'')) \<and>
         (map_of attrib ''automatic'' = None \<and> map_of attrib ''manual'' = None \<longrightarrow>
                cfg f = Some False))) \<and>
   ((\<exists>cfg. parse_configuration root fm = Inr cfg) \<longleftrightarrow>
      (\<forall>a \<in> set root. a \<noteq> [] \<longrightarrow> (\<exists>m g. map_of a ''name'' = Some m \<and> fm m = Some g)))"
proof (rule conjI)
  show "(\<forall>a \<in> set (before @ attrib # after).
       a \<noteq> [] \<longrightarrow> (\<exists>m g. map_of a ''name'' = Some m \<and> fm m = Some g)) \<and>
    attrib \<noteq> [] \<and> map_of attrib ''name'' = Some n \<and> fm n = Some f \<and>
    (\<forall>a \<in> set after. \<forall>m. a \<noteq> [] \<and> map_of a ''name'' = Some m \<longrightarrow> fm m \<noteq> Some f) \<longrightarrow>
      (\<exists>cfg. parse_configuration (before @ attrib # after) fm = Inr cfg \<and>
         (\<forall>a. map_of attrib ''automatic'' = Some a \<longrightarrow> cfg f = Some (a = ''selected'')) \<and>
         (\<forall>m. map_of attrib ''automatic'' = None \<and> map_of attrib ''manual'' = Some m \<longrightarrow>
                cfg f = Some (m = ''selected'')) \<and>
         (map_of attrib ''automatic'' = None \<and> map_of attrib ''manual'' = None \<longrightarrow>
                cfg f = Some False))"
  proof (rule impI)
    assume a: "(\<forall>a \<in> set (before @ attrib # after).
       a \<noteq> [] \<longrightarrow> (\<exists>m g. map_of a ''name'' = Some m \<and> fm m = Some g)) \<and>
      attrib \<noteq> [] \<and> map_of attrib ''name'' = Some n \<and> fm n = Some f \<and>
      (\<forall>a \<in> set after. \<forall>m. a \<noteq> [] \<and> map_of a ''name'' = Some m \<longrightarrow> fm m \<noteq> Some f)"
    then have "\<exists>cfg. parse_configuration (before @ attrib # after) fm = Inr cfg \<and>
           cfg f = Some (feature_selected attrib)"
      by (intro parse_configuration_record) blast+
    then obtain cfg where run: "parse_configuration (before @ attrib # after) fm = Inr cfg"
      and sel: "cfg f = Some (feature_selected attrib)" by blast
    have "\<forall>a. map_of attrib ''automatic'' = Some a \<longrightarrow> cfg f = Some (a = ''selected'')"
      using sel by (simp add: feature_selected_def)
    moreover have "\<forall>m. map_of attrib ''automatic'' = None \<and> map_of attrib ''manual'' = Some m \<longrightarrow>
        cfg f = Some (m = ''selected'')"
      using sel by (simp add: feature_selected_def)
    moreover have "map_of attrib ''automatic'' = None \<and> map_of attrib ''manual'' = None \<longrightarrow>
        cfg f = Some False"
      using sel by (simp add: feature_selected_def)
    ultimately show "\<exists>cfg. parse_configuration (before @ attrib # after) fm = Inr cfg \<and>
         (\<forall>a. map_of attrib ''automatic'' = Some a \<longrightarrow> cfg f = Some (a = ''selected'')) \<and>
         (\<forall>m. map_of attrib ''automatic'' = None \<and> map_of attrib ''manual'' = Some m \<longrightarrow>
                cfg f = Some (m = ''selected'')) \<and>
         (map_of attrib ''automatic'' = None \<and> map_of attrib ''manual'' = None \<longrightarrow>
                cfg f = Some False)"
      using run by blast
  qed
next
  show "(\<exists>cfg. parse_configuration root fm = Inr cfg) \<longleftrightarrow>
      (\<forall>a \<in> set root. a \<noteq> [] \<longrightarrow> (\<exists>m g. map_of a ''name'' = Some m \<and> fm m = Some g))"
    unfolding parse_configuration_def
    using parse_children_returns [of root fm Map.empty] parse_children_total [of root fm Map.empty]
    by blast
qed

theorem parse_configuration_precedence_witness:
  "(\<exists>cfg. parse_configuration
       [[(''name'', ''A''), (''automatic'', ''selected''), (''manual'', ''unselected'')],
        [],
        [(''name'', ''B''), (''manual'', ''selected'')],
        [(''name'', ''C'')]]
       (Map.empty(''A'' \<mapsto> ''A'', ''B'' \<mapsto> ''B'', ''C'' \<mapsto> ''C'')) = Inr cfg \<and>
     cfg ''A'' = Some True) \<and>
   (\<exists>cfg. parse_configuration
       [[(''name'', ''A''), (''automatic'', ''selected''), (''manual'', ''unselected'')],
        [],
        [(''name'', ''B''), (''manual'', ''selected'')],
        [(''name'', ''C'')]]
       (Map.empty(''A'' \<mapsto> ''A'', ''B'' \<mapsto> ''B'', ''C'' \<mapsto> ''C'')) = Inr cfg \<and>
     cfg ''B'' = Some True) \<and>
   (\<exists>cfg. parse_configuration
       [[(''name'', ''A''), (''automatic'', ''selected''), (''manual'', ''unselected'')],
        [],
        [(''name'', ''B''), (''manual'', ''selected'')],
        [(''name'', ''C'')]]
       (Map.empty(''A'' \<mapsto> ''A'', ''B'' \<mapsto> ''B'', ''C'' \<mapsto> ''C'')) = Inr cfg \<and>
     cfg ''C'' = Some False)"
proof -
  let ?fm = "Map.empty(''A'' \<mapsto> ''A'', ''B'' \<mapsto> ''B'', ''C'' \<mapsto> ''C'')"
  let ?a = "[(''name'', ''A''), (''automatic'', ''selected''), (''manual'', ''unselected'')]"
  let ?b = "[(''name'', ''B''), (''manual'', ''selected'')]"
  let ?c = "[(''name'', ''C'')]"
  have wa: "\<forall>x \<in> set ([] @ ?a # [[], ?b, ?c]).
      x \<noteq> [] \<longrightarrow> (\<exists>m g. map_of x ''name'' = Some m \<and> ?fm m = Some g)"
    by simp
  have wb: "\<forall>x \<in> set ([?a, []] @ ?b # [?c]).
      x \<noteq> [] \<longrightarrow> (\<exists>m g. map_of x ''name'' = Some m \<and> ?fm m = Some g)"
    by simp
  have wc: "\<forall>x \<in> set ([?a, [], ?b] @ ?c # []).
      x \<noteq> [] \<longrightarrow> (\<exists>m g. map_of x ''name'' = Some m \<and> ?fm m = Some g)"
    by simp
  have la: "\<forall>x \<in> set [[], ?b, ?c]. \<forall>m. x \<noteq> [] \<and> map_of x ''name'' = Some m \<longrightarrow> ?fm m \<noteq> Some ''A''"
    by simp
  have lb: "\<forall>x \<in> set [?c]. \<forall>m. x \<noteq> [] \<and> map_of x ''name'' = Some m \<longrightarrow> ?fm m \<noteq> Some ''B''"
    by simp
  have lc: "\<forall>x \<in> set ([] :: element list). \<forall>m. x \<noteq> [] \<and> map_of x ''name'' = Some m \<longrightarrow> ?fm m \<noteq> Some ''C''"
    by simp
  have na: "?a \<noteq> []" "map_of ?a ''name'' = Some ''A''" "?fm ''A'' = Some ''A''"
    by simp_all
  have nb: "?b \<noteq> []" "map_of ?b ''name'' = Some ''B''" "?fm ''B'' = Some ''B''"
    by simp_all
  have nc: "?c \<noteq> []" "map_of ?c ''name'' = Some ''C''" "?fm ''C'' = Some ''C''"
    by simp_all
  from parse_configuration_precedence [of "[]" ?a "[[], ?b, ?c]" ?fm "''A''" "''A''"] wa na la
  obtain cfa where ra: "parse_configuration ([] @ ?a # [[], ?b, ?c]) ?fm = Inr cfa"
    and sa: "\<forall>a. map_of ?a ''automatic'' = Some a \<longrightarrow> cfa ''A'' = Some (a = ''selected'')"
    by blast
  from sa have "cfa ''A'' = Some True" by simp
  with ra have a: "\<exists>cfg. parse_configuration ([] @ ?a # [[], ?b, ?c]) ?fm = Inr cfg \<and> cfg ''A'' = Some True"
    by blast
  from parse_configuration_precedence [of "[?a, []]" ?b "[?c]" ?fm "''B''" "''B''"] wb nb lb
  obtain cfb where rb: "parse_configuration ([?a, []] @ ?b # [?c]) ?fm = Inr cfb"
    and sb: "\<forall>m. map_of ?b ''automatic'' = None \<and> map_of ?b ''manual'' = Some m \<longrightarrow>
        cfb ''B'' = Some (m = ''selected'')"
    by blast
  from sb have "cfb ''B'' = Some True" by simp
  with rb have b: "\<exists>cfg. parse_configuration ([?a, []] @ ?b # [?c]) ?fm = Inr cfg \<and> cfg ''B'' = Some True"
    by blast
  from parse_configuration_precedence [of "[?a, [], ?b]" ?c "[]" ?fm "''C''" "''C''"] wc nc lc
  obtain cfc where rc: "parse_configuration ([?a, [], ?b] @ ?c # []) ?fm = Inr cfc"
    and sc: "map_of ?c ''automatic'' = None \<and> map_of ?c ''manual'' = None \<longrightarrow> cfc ''C'' = Some False"
    by blast
  from sc have "cfc ''C'' = Some False" by simp
  with rc have c: "\<exists>cfg. parse_configuration ([?a, [], ?b] @ ?c # []) ?fm = Inr cfg \<and> cfg ''C'' = Some False"
    by blast
  have e: "[] @ ?a # [[], ?b, ?c] = [?a, [], ?b, ?c]" "[?a, []] @ ?b # [?c] = [?a, [], ?b, ?c]"
    "[?a, [], ?b] @ ?c # [] = [?a, [], ?b, ?c]"
    by simp_all
  from a b c show ?thesis unfolding e by blast
qed

section \<open>The template map: one rule per variation point\<close>

lemma map_of_dict_set: "map_of (dict_set k v d) = (map_of d)(k \<mapsto> v)"
  by (induction d) auto

lemma keys_dict_set: "set (dict_keys (dict_set k v d)) = insert k (set (dict_keys d))"
proof -
  have "dom (map_of (dict_set k v d)) = insert k (dom (map_of d))"
    by (simp add: map_of_dict_set)
  then show ?thesis
    by (simp add: dom_map_of_conv_image_fst dict_keys_def)
qed

lemma build_maps_append:
  "build_maps fm (pre @ rest) cs attrs m0 =
     (case build_maps fm pre cs attrs m0 of
        Inl e \<Rightarrow> Inl e
      | Inr m \<Rightarrow> build_maps fm rest cs attrs m)"
  by (induction pre arbitrary: m0) (auto split: sum.splits)

lemma build_maps_total:
  "(\<forall>vp \<in> set vps. \<not> skipped cs vp \<and> \<not> presence_only vp \<longrightarrow>
      (\<exists>v. get_variant_value fm vp cs attrs = Inr v)) \<Longrightarrow>
   \<exists>m. build_maps fm vps cs attrs m0 = Inr m"
proof (induction vps arbitrary: m0)
  case Nil
  then show ?case by simp
next
  case (Cons vp vps)
  then show ?case
    by (auto simp: skipped_def presence_only_def)
qed

lemma build_maps_keys:
  "build_maps fm vps cs attrs m0 = Inr m \<Longrightarrow>
   set (dict_keys m) = set (dict_keys m0) \<union> {handler vp |vp. vp \<in> set vps \<and> \<not> skipped cs vp}"
proof (induction vps arbitrary: m0)
  case Nil
  then show ?case by simp
next
  case (Cons vp vps)
  show ?case
  proof (cases "skipped cs vp")
    case True
    then have "build_maps fm vps cs attrs m0 = Inr m"
      using Cons.prems by (auto simp: skipped_def split: if_splits)
    from Cons.IH [OF this] True show ?thesis by auto
  next
    case False
    then obtain tv where "build_maps fm vps cs attrs (dict_set (handler vp) tv m0) = Inr m"
      using Cons.prems by (auto simp: skipped_def split: if_splits sum.splits)
    from Cons.IH [OF this] False show ?thesis
      by (auto simp: keys_dict_set)
  qed
qed

lemma build_maps_keeps:
  "build_maps fm vps cs attrs m0 = Inr m \<Longrightarrow>
   (\<forall>q \<in> set vps. skipped cs q \<or> handler q \<noteq> h) \<Longrightarrow>
   map_of m h = map_of m0 h"
proof (induction vps arbitrary: m0)
  case Nil
  then show ?case by simp
next
  case (Cons vp vps)
  show ?case
  proof (cases "skipped cs vp")
    case True
    then have "build_maps fm vps cs attrs m0 = Inr m"
      using Cons.prems(1) by (auto simp: skipped_def split: if_splits)
    from Cons.IH [OF this] Cons.prems(2) show ?thesis by simp
  next
    case False
    then obtain tv where run: "build_maps fm vps cs attrs (dict_set (handler vp) tv m0) = Inr m"
      using Cons.prems(1) by (auto simp: skipped_def split: if_splits sum.splits)
    from False Cons.prems(2) have "handler vp \<noteq> h" by auto
    with Cons.IH [OF run] Cons.prems(2) show ?thesis
      by (simp add: map_of_dict_set)
  qed
qed

lemma build_maps_step:
  "\<not> skipped cs vp \<Longrightarrow> build_maps fm (vp # rest) cs attrs m0 = Inr m \<Longrightarrow>
   (presence_only vp \<and> build_maps fm rest cs attrs (dict_set (handler vp) PyTrue m0) = Inr m) \<or>
   (\<not> presence_only vp \<and>
    (\<exists>v. get_variant_value fm vp cs attrs = Inr v \<and>
         build_maps fm rest cs attrs (dict_set (handler vp) (PyValue v) m0) = Inr m))"
  by (auto simp: skipped_def presence_only_def split: if_splits sum.splits)

lemma build_maps_entry:
  assumes run: "build_maps fm (before @ vp # after) cs attrs m0 = Inr m"
    and vp: "\<not> skipped cs vp"
    and last: "\<forall>q \<in> set after. skipped cs q \<or> handler q \<noteq> handler vp"
  shows "(presence_only vp \<longrightarrow> map_of m (handler vp) = Some PyTrue) \<and>
         (\<not> presence_only vp \<longrightarrow>
            (\<exists>v. get_variant_value fm vp cs attrs = Inr v \<and> map_of m (handler vp) = Some (PyValue v)))"
proof -
  from run obtain m1 where "build_maps fm (vp # after) cs attrs m1 = Inr m"
    by (auto simp: build_maps_append split: sum.splits)
  from build_maps_step [OF vp this] show ?thesis
  proof
    assume a: "presence_only vp \<and> build_maps fm after cs attrs (dict_set (handler vp) PyTrue m1) = Inr m"
    then have "map_of m (handler vp) = map_of (dict_set (handler vp) PyTrue m1) (handler vp)"
      using build_maps_keeps last by blast
    with a show ?thesis by (simp add: map_of_dict_set)
  next
    assume a: "\<not> presence_only vp \<and>
      (\<exists>v. get_variant_value fm vp cs attrs = Inr v \<and>
           build_maps fm after cs attrs (dict_set (handler vp) (PyValue v) m1) = Inr m)"
    then obtain v where v: "get_variant_value fm vp cs attrs = Inr v"
      and r: "build_maps fm after cs attrs (dict_set (handler vp) (PyValue v) m1) = Inr m"
      by blast
    have "map_of m (handler vp) = map_of (dict_set (handler vp) (PyValue v) m1) (handler vp)"
      using build_maps_keeps [OF r last] .
    with a v show ?thesis by (simp add: map_of_dict_set)
  qed
qed

lemma build_maps_returns:
  "build_maps fm vps cs attrs m0 = Inr m \<Longrightarrow>
   \<forall>vp \<in> set vps. \<not> skipped cs vp \<and> \<not> presence_only vp \<longrightarrow>
      (\<exists>v. get_variant_value fm vp cs attrs = Inr v)"
proof (induction vps arbitrary: m0)
  case Nil
  show ?case by simp
next
  case (Cons vp vps)
  show ?case
  proof (cases "skipped cs vp")
    case True
    then have "build_maps fm vps cs attrs m0 = Inr m"
      using Cons.prems by (auto simp: skipped_def split: if_splits)
    from Cons.IH [OF this] True show ?thesis by simp
  next
    case False
    from build_maps_step [OF False Cons.prems]
    obtain m1 where "build_maps fm vps cs attrs m1 = Inr m"
      and "presence_only vp \<or> (\<exists>v. get_variant_value fm vp cs attrs = Inr v)"
      by blast
    with Cons.IH [of m1] show ?thesis by auto
  qed
qed

lemma build_maps_raises:
  "build_maps fm vps cs attrs m0 = Inl e \<Longrightarrow>
   \<exists>vp \<in> set vps. \<not> skipped cs vp \<and> \<not> presence_only vp \<and>
      get_variant_value fm vp cs attrs = Inl e"
proof (induction vps arbitrary: m0)
  case Nil
  then show ?case by simp
next
  case (Cons vp vps)
  show ?case
  proof (cases "\<not> skipped cs vp \<and> \<not> presence_only vp \<and> get_variant_value fm vp cs attrs = Inl e")
    case True
    then show ?thesis by simp
  next
    case False
    with Cons.prems obtain m1 where "build_maps fm vps cs attrs m1 = Inl e"
      by (auto simp: skipped_def presence_only_def split: if_splits sum.splits)
    from Cons.IH [OF this] show ?thesis by simp
  qed
qed

lemma build_template_maps_entries:
  assumes "\<forall>vp \<in> set (dict_values mm). \<not> skipped cs vp \<and> \<not> presence_only vp \<longrightarrow>
      (\<exists>v. get_variant_value fm vp cs attrs = Inr v)"
  shows "\<exists>maps. build_template_maps fm mm cs attrs = Inr maps \<and>
     set (dict_keys maps) = set (map handler (filter (\<lambda>vp. \<not> skipped cs vp) (dict_values mm))) \<and>
     (\<forall>before vp after.
        dict_values mm = before @ vp # after \<and> \<not> skipped cs vp \<and>
        (\<forall>q \<in> set after. skipped cs q \<or> handler q \<noteq> handler vp) \<longrightarrow>
          (presence_only vp \<longrightarrow> map_of maps (handler vp) = Some PyTrue) \<and>
          (\<not> presence_only vp \<longrightarrow>
             (\<exists>v. get_variant_value fm vp cs attrs = Inr v \<and>
                  map_of maps (handler vp) = Some (PyValue v))))"
proof -
  from build_maps_total [OF assms]
  obtain maps where run: "build_maps fm (dict_values mm) cs attrs [] = Inr maps"
    by blast
  have keys: "set (dict_keys maps) = set (map handler (filter (\<lambda>vp. \<not> skipped cs vp) (dict_values mm)))"
    using build_maps_keys [OF run] by (auto simp: dict_keys_def)
  have entries: "\<forall>before vp after.
        dict_values mm = before @ vp # after \<and> \<not> skipped cs vp \<and>
        (\<forall>q \<in> set after. skipped cs q \<or> handler q \<noteq> handler vp) \<longrightarrow>
          (presence_only vp \<longrightarrow> map_of maps (handler vp) = Some PyTrue) \<and>
          (\<not> presence_only vp \<longrightarrow>
             (\<exists>v. get_variant_value fm vp cs attrs = Inr v \<and>
                  map_of maps (handler vp) = Some (PyValue v)))"
  proof (intro allI impI)
    fix before vp after
    assume a: "dict_values mm = before @ vp # after \<and> \<not> skipped cs vp \<and>
        (\<forall>q \<in> set after. skipped cs q \<or> handler q \<noteq> handler vp)"
    with run have "build_maps fm (before @ vp # after) cs attrs [] = Inr maps" by simp
    from build_maps_entry [OF this] a
    show "(presence_only vp \<longrightarrow> map_of maps (handler vp) = Some PyTrue) \<and>
          (\<not> presence_only vp \<longrightarrow>
             (\<exists>v. get_variant_value fm vp cs attrs = Inr v \<and>
                  map_of maps (handler vp) = Some (PyValue v)))"
      by blast
  qed
  from run keys entries show ?thesis
    unfolding build_template_maps_def by blast
qed


text \<open>
  C6. \<open>build_template_maps\<close> handles each variation point of the mapping model by one
  rule: it is skipped when its handler contains a dot or its governing feature is
  selected in no configuration (\<open>skipped\<close>); otherwise its handler is mapped to \<open>True\<close>
  when it has no variants or its first variant's identifier is \<open>"-"\<close>
  (\<open>presence_only\<close>), and to the result of \<open>get_variant_value\<close> otherwise. The keys of
  the template map are the handlers of the variation points that are not skipped, and
  no others. The entry of a handler is the one of the last variation point assigning
  it. The map is returned exactly when \<open>get_variant_value\<close> returns for the variation
  points it is called for; otherwise \<open>build_template_maps\<close> raises what one of these
  calls raises.
\<close>

theorem build_template_maps_rule:
  "((\<forall>vp \<in> set (dict_values mm). \<not> skipped cs vp \<and> \<not> presence_only vp \<longrightarrow>
       (\<exists>v. get_variant_value fm vp cs attrs = Inr v)) \<longrightarrow>
    (\<exists>maps. build_template_maps fm mm cs attrs = Inr maps \<and>
       set (dict_keys maps) = set (map handler (filter (\<lambda>vp. \<not> skipped cs vp) (dict_values mm))) \<and>
       (\<forall>before vp after.
          dict_values mm = before @ vp # after \<and> \<not> skipped cs vp \<and>
          (\<forall>q \<in> set after. skipped cs q \<or> handler q \<noteq> handler vp) \<longrightarrow>
            (presence_only vp \<longrightarrow> map_of maps (handler vp) = Some PyTrue) \<and>
            (\<not> presence_only vp \<longrightarrow>
               (\<exists>v. get_variant_value fm vp cs attrs = Inr v \<and>
                    map_of maps (handler vp) = Some (PyValue v)))))) \<and>
   ((\<exists>maps. build_template_maps fm mm cs attrs = Inr maps) \<longrightarrow>
    (\<forall>vp \<in> set (dict_values mm). \<not> skipped cs vp \<and> \<not> presence_only vp \<longrightarrow>
       (\<exists>v. get_variant_value fm vp cs attrs = Inr v))) \<and>
   (\<forall>e. build_template_maps fm mm cs attrs = Inl e \<longrightarrow>
      (\<exists>vp \<in> set (dict_values mm). \<not> skipped cs vp \<and> \<not> presence_only vp \<and>
         get_variant_value fm vp cs attrs = Inl e))"
  using build_template_maps_entries [of mm cs fm attrs]
    build_maps_returns [of fm "dict_values mm" cs attrs "[]"]
    build_maps_raises [of fm "dict_values mm" cs attrs "[]"]
  unfolding build_template_maps_def by blast

theorem build_template_maps_rule_witness:
  "\<exists>maps. build_template_maps
       (Map.empty(''Op'' \<mapsto> ''Op'', ''Add'' \<mapsto> ''Add'', ''Sub'' \<mapsto> ''Sub'', ''Title'' \<mapsto> ''Title''))
       [(''Op'', \<lparr>feature = ''Op'', handler = ''Op'',
                  variants = [Variant ''Add'' (Some ''+''), Variant ''Sub'' (Some ''minus'')]\<rparr>),
        (''Title'', \<lparr>feature = ''Title'', handler = ''title'', variants = []\<rparr>),
        (''Add'', \<lparr>feature = ''Add'', handler = ''add'', variants = [Variant ''Add'' (Some ''a'')]\<rparr>),
        (''Sub'', \<lparr>feature = ''Sub'', handler = ''plot.sub'', variants = [Variant ''Sub'' (Some ''s'')]\<rparr>)]
       [Map.empty(''Op'' \<mapsto> True, ''Add'' \<mapsto> False, ''Sub'' \<mapsto> True, ''Title'' \<mapsto> True)] []
       = Inr maps \<and>
     set (dict_keys maps) = {''Op'', ''title''} \<and>
     map_of maps ''Op'' = Some (PyValue (Some ''minus'')) \<and>
     map_of maps ''title'' = Some PyTrue"
proof -
  let ?fm = "Map.empty(''Op'' \<mapsto> ''Op'', ''Add'' \<mapsto> ''Add'', ''Sub'' \<mapsto> ''Sub'', ''Title'' \<mapsto> ''Title'')"
  let ?cs = "[Map.empty(''Op'' \<mapsto> True, ''Add'' \<mapsto> False, ''Sub'' \<mapsto> True, ''Title'' \<mapsto> True)]"
  let ?op = "\<lparr>feature = ''Op'', handler = ''Op'',
      variants = [Variant ''Add'' (Some ''+''), Variant ''Sub'' (Some ''minus'')]\<rparr>"
  let ?title = "\<lparr>feature = ''Title'', handler = ''title'', variants = []\<rparr>"
  let ?add = "\<lparr>feature = ''Add'', handler = ''add'', variants = [Variant ''Add'' (Some ''a'')]\<rparr>"
  let ?sub = "\<lparr>feature = ''Sub'', handler = ''plot.sub'', variants = [Variant ''Sub'' (Some ''s'')]\<rparr>"
  let ?mm = "[(''Op'', ?op), (''Title'', ?title), (''Add'', ?add), (''Sub'', ?sub)]"
  have sk: "\<not> skipped ?cs ?op" "\<not> skipped ?cs ?title" "skipped ?cs ?add" "skipped ?cs ?sub"
    by (simp_all add: skipped_def is_selected_in_a_configuration_def)
  have po: "\<not> presence_only ?op" "presence_only ?title"
    by (simp_all add: presence_only_def Variant_def)
  have gv: "get_variant_value ?fm ?op ?cs [] = Inr (Some ''minus'')"
    by (simp add: get_variant_value_def get_feature_from_fm_def guard_name_def candidate_def
          Variant_def is_selected_in_a_configuration_def)
  have vals: "dict_values ?mm = [?op, ?title, ?add, ?sub]"
    by (simp add: dict_values_def)
  have pre: "\<forall>vp \<in> set (dict_values ?mm). \<not> skipped ?cs vp \<and> \<not> presence_only vp \<longrightarrow>
      (\<exists>v. get_variant_value ?fm vp ?cs [] = Inr v)"
    unfolding vals using sk po gv by simp
  from build_template_maps_rule [of ?mm ?cs ?fm "[]"] pre
  obtain maps where run: "build_template_maps ?fm ?mm ?cs [] = Inr maps"
    and keys: "set (dict_keys maps) = set (map handler (filter (\<lambda>vp. \<not> skipped ?cs vp) (dict_values ?mm)))"
    and entries: "\<And>before vp after.
        dict_values ?mm = before @ vp # after \<and> \<not> skipped ?cs vp \<and>
        (\<forall>q \<in> set after. skipped ?cs q \<or> handler q \<noteq> handler vp) \<Longrightarrow>
          (presence_only vp \<longrightarrow> map_of maps (handler vp) = Some PyTrue) \<and>
          (\<not> presence_only vp \<longrightarrow>
             (\<exists>v. get_variant_value ?fm vp ?cs [] = Inr v \<and>
                  map_of maps (handler vp) = Some (PyValue v)))"
    by blast
  have k: "set (dict_keys maps) = {''Op'', ''title''}"
    unfolding keys vals using sk by simp
  have "dict_values ?mm = [] @ ?op # [?title, ?add, ?sub] \<and> \<not> skipped ?cs ?op \<and>
        (\<forall>q \<in> set [?title, ?add, ?sub]. skipped ?cs q \<or> handler q \<noteq> handler ?op)"
    unfolding vals using sk by simp
  from entries [OF this] po gv have e1: "map_of maps ''Op'' = Some (PyValue (Some ''minus''))"
    by simp
  have "dict_values ?mm = [?op] @ ?title # [?add, ?sub] \<and> \<not> skipped ?cs ?title \<and>
        (\<forall>q \<in> set [?add, ?sub]. skipped ?cs q \<or> handler q \<noteq> handler ?title)"
    unfolding vals using sk by simp
  from entries [OF this] po have e2: "map_of maps ''title'' = Some PyTrue"
    by simp
  from run k e1 e2 show ?thesis by blast
qed

section \<open>Loading the mapping model: one point per key\<close>

lemma map_of_dict_modify:
  "map_of (dict_modify k f d) =
     (case map_of d k of None \<Rightarrow> map_of d | Some v \<Rightarrow> (map_of d)(k \<mapsto> f v))"
  by (induction d) (auto split: option.splits)

lemma keys_dict_modify: "dict_keys (dict_modify k f d) = dict_keys d"
  by (induction d) (auto simp: dict_keys_def)

lemma keys_dict_set_list:
  "dict_keys (dict_set k v d) = (if k \<in> set (dict_keys d) then dict_keys d else dict_keys d @ [k])"
proof (induction d)
  case Nil
  show ?case by (simp add: dict_keys_def)
next
  case (Cons p d)
  obtain k' v' where p: "p = (k', v')" by (cases p)
  show ?case
  proof (cases "k' = k")
    case True
    with p show ?thesis by (simp add: dict_keys_def)
  next
    case False
    with p Cons show ?thesis by (simp add: dict_keys_def)
  qed
qed

lemma in_keys_iff: "k \<in> set (dict_keys d) \<longleftrightarrow> map_of d k \<noteq> None"
  by (simp add: dict_keys_def map_of_eq_None_iff)

lemma kept_rows_snoc:
  "kept_rows k (rows @ [r]) =
     (if row_key r = k then
        (if CHR ''.'' \<in> set (variant_feature r) then [r] else kept_rows k rows @ [r])
      else kept_rows k rows)"
  by (induction rows) auto

lemma first_keys_snoc:
  "first_keys (rows @ [r]) =
     (if row_key r \<in> set (first_keys rows) then first_keys rows else first_keys rows @ [row_key r])"
  by (simp add: first_keys_def)

lemma kept_rows_subset: "set (kept_rows k rows) \<subseteq> set rows"
  by (induction rows) auto

lemma point_of_None_iff:
  "\<forall>r \<in> set rows. fm (vp_feature r) \<noteq> None \<Longrightarrow>
   point_of fm k rows = None \<longleftrightarrow> kept_rows k rows = []"
proof -
  assume known: "\<forall>r \<in> set rows. fm (vp_feature r) \<noteq> None"
  show ?thesis
  proof (cases "kept_rows k rows")
    case Nil
    then show ?thesis by (simp add: point_of_def)
  next
    case (Cons r rs)
    then have "r \<in> set rows" using kept_rows_subset [of k rows] by auto
    with known have "fm (vp_feature r) \<noteq> None" by blast
    with Cons show ?thesis by (auto simp: point_of_def)
  qed
qed

lemma load_row_points:
  assumes inv: "\<forall>k. map_of mm k = point_of fm k rows"
    and keys: "dict_keys mm = first_keys rows"
    and known: "\<forall>x \<in> set (rows @ [r]). fm (vp_feature x) \<noteq> None"
  shows "\<exists>mm'. load_row fm mm r = Inr mm' \<and> (\<forall>k. map_of mm' k = point_of fm k (rows @ [r])) \<and>
           dict_keys mm' = first_keys (rows @ [r])"
proof -
  from known obtain f where f: "fm (vp_feature r) = Some f" by auto
  from known have known': "\<forall>x \<in> set rows. fm (vp_feature x) \<noteq> None" by simp
  have keyset: "\<And>k. k \<in> set (dict_keys mm) \<longleftrightarrow> kept_rows k rows \<noteq> []"
    using inv point_of_None_iff [OF known'] by (simp add: in_keys_iff)
  show ?thesis
  proof (cases "CHR ''.'' \<in> set (variant_feature r)")
    case True
    then have key: "row_key r = variant_feature r" by (simp add: row_key_def)
    let ?mm' = "dict_modify (variant_feature r) (append_variant (row_variant r))
                  (dict_set (variant_feature r) (VariationPoint f (vp_handler r)) mm)"
    have run: "load_row fm mm r = Inr ?mm'"
      using True f by (simp add: load_row_def get_feature_from_fm_def)
    have "map_of ?mm' k = point_of fm k (rows @ [r])" for k
      using True key f inv
      by (simp add: map_of_dict_modify map_of_dict_set point_of_def kept_rows_snoc
            VariationPoint_def append_variant_def)
    moreover have "dict_keys ?mm' = first_keys (rows @ [r])"
      using key keys by (simp add: keys_dict_modify keys_dict_set_list first_keys_snoc)
    ultimately show ?thesis using run by blast
  next
    case False
    then have key: "row_key r = vp_feature r" by (simp add: row_key_def)
    show ?thesis
    proof (cases "vp_feature r \<in> set (dict_keys mm)")
      case fresh: False
      let ?mm' = "dict_modify (vp_feature r) (append_variant (row_variant r))
                    (dict_set (vp_feature r) (VariationPoint f (vp_handler r)) mm)"
      have run: "load_row fm mm r = Inr ?mm'"
        using False fresh f by (simp add: load_row_def get_feature_from_fm_def)
      from fresh keyset have none: "kept_rows (vp_feature r) rows = []" by blast
      have "map_of ?mm' k = point_of fm k (rows @ [r])" for k
        using False key f inv none
        by (simp add: map_of_dict_modify map_of_dict_set point_of_def kept_rows_snoc
              VariationPoint_def append_variant_def)
      moreover have "dict_keys ?mm' = first_keys (rows @ [r])"
        using key keys by (simp add: keys_dict_modify keys_dict_set_list first_keys_snoc)
      ultimately show ?thesis using run by blast
    next
      case present: True
      let ?mm' = "dict_modify (vp_feature r) (append_variant (row_variant r)) mm"
      have run: "load_row fm mm r = Inr ?mm'"
        using False present by (simp add: load_row_def)
      from present keyset obtain r0 rs where kept: "kept_rows (vp_feature r) rows = r0 # rs"
        by (cases "kept_rows (vp_feature r) rows") auto
      then have "r0 \<in> set rows" using kept_rows_subset [of "vp_feature r" rows] by auto
      with known' obtain f0 where f0: "fm (vp_feature r0) = Some f0" by auto
      have "map_of ?mm' k = point_of fm k (rows @ [r])" for k
      proof (cases "k = vp_feature r")
        case True
        have "map_of mm (vp_feature r)
            = Some \<lparr>feature = f0, handler = vp_handler r0, variants = map row_variant (r0 # rs)\<rparr>"
          using inv kept f0 by (simp add: point_of_def)
        then show ?thesis
          using True False key kept f0
          by (simp add: map_of_dict_modify point_of_def kept_rows_snoc append_variant_def)
      next
        case other: False
        then show ?thesis
          using key inv
          by (simp add: map_of_dict_modify point_of_def kept_rows_snoc split: option.splits)
      qed
      moreover have "dict_keys ?mm' = first_keys (rows @ [r])"
        using key keys present by (simp add: keys_dict_modify first_keys_snoc)
      ultimately show ?thesis using run by blast
    qed
  qed
qed

lemma load_rows_points:
  "\<forall>r \<in> set rows. fm (vp_feature r) \<noteq> None \<Longrightarrow>
   \<exists>mm. load_rows fm rows [] = Inr mm \<and> (\<forall>k. map_of mm k = point_of fm k rows) \<and>
        dict_keys mm = first_keys rows"
proof (induction rows rule: rev_induct)
  case Nil
  show ?case by (simp add: point_of_def first_keys_def dict_keys_def)
next
  case (snoc r rows)
  then obtain mm where run: "load_rows fm rows [] = Inr mm"
    and inv: "\<forall>k. map_of mm k = point_of fm k rows" and keys: "dict_keys mm = first_keys rows"
    by auto
  from load_row_points [OF inv keys snoc.prems]
  obtain mm' where "load_row fm mm r = Inr mm'"
    and "\<forall>k. map_of mm' k = point_of fm k (rows @ [r])"
    and "dict_keys mm' = first_keys (rows @ [r])"
    by blast
  with run show ?case
    by (simp add: load_rows_append)
qed

lemma load_rows_last_variant:
  assumes "load_rows fm (rows @ [r]) [] = Inr mm"
  shows "\<exists>vp. map_of mm (row_key r) = Some vp \<and> variants vp \<noteq> [] \<and>
           last (variants vp) = row_variant r"
proof -
  from assms obtain mm0 where step: "load_row fm mm0 r = Inr mm"
    by (auto simp: load_rows_append split: sum.splits)
  show ?thesis
  proof (cases "CHR ''.'' \<in> set (variant_feature r) \<or> vp_feature r \<notin> set (dict_keys mm0)")
    case True
    with step obtain f where
      "mm = dict_modify (row_key r) (append_variant (row_variant r))
              (dict_set (row_key r) (VariationPoint f (vp_handler r)) mm0)"
      by (auto simp: load_row_def row_key_def split: sum.splits if_splits)
    then show ?thesis
      by (simp add: map_of_dict_modify map_of_dict_set append_variant_def)
  next
    case False
    with step have mm: "mm = dict_modify (row_key r) (append_variant (row_variant r)) mm0"
      by (auto simp: load_row_def row_key_def)
    from False have "row_key r \<in> set (dict_keys mm0)" by (simp add: row_key_def)
    then obtain vp0 where "map_of mm0 (row_key r) = Some vp0"
      by (auto simp: in_keys_iff)
    with mm show ?thesis
      by (simp add: map_of_dict_modify append_variant_def)
  qed
qed

text \<open>
  C3, as the code has it. With the governing features in the feature model,
  \<open>load_mapping_model\<close> returns a mapping model with one variation point per key, the
  keys in the order of their first rows. The key of a row is its variant identifier
  when that contains a dot and its variation-point feature otherwise. A row without a
  dot creates the point when its key is new and reuses it otherwise; a row with a dot
  always stores a new point under its key, in place of a point already there. So the
  point under a key holds, in row order, the variants of the rows of that key that no
  later row with a dot and the same key follows (\<open>kept_rows\<close>), with the handler and
  the feature of the first of them: all the rows of the key when none has a dot.
\<close>

theorem load_mapping_model_points:
  assumes "\<forall>r \<in> set rows. fm (vp_feature r) \<noteq> None"
  shows "\<exists>mm. load_mapping_model rows fm = Inr mm \<and> dict_keys mm = first_keys rows \<and>
           (\<forall>k. map_of mm k = point_of fm k rows)"
  using load_rows_points [OF assms] unfolding load_mapping_model_def by blast

theorem load_mapping_model_points_witness:
  "\<exists>mm. load_mapping_model
       [\<lparr>vp_feature = ''Op'', vp_handler = ''Op'', variant_feature = ''Add'', variant_value = ''+''\<rparr>,
        \<lparr>vp_feature = ''Plot'', vp_handler = ''width'', variant_feature = ''Plot.width'', variant_value = ''a''\<rparr>,
        \<lparr>vp_feature = ''Op'', vp_handler = ''Op'', variant_feature = ''Sub'', variant_value = ''-''\<rparr>,
        \<lparr>vp_feature = ''Plot'', vp_handler = ''width'', variant_feature = ''Plot.width'', variant_value = ''b''\<rparr>]
       (Map.empty(''Op'' \<mapsto> ''Op'', ''Plot'' \<mapsto> ''Plot'')) = Inr mm \<and>
     dict_keys mm = [''Op'', ''Plot.width''] \<and>
     map_of mm ''Op'' = Some \<lparr>feature = ''Op'', handler = ''Op'',
        variants = [\<lparr>ident = ''Add'', val = Some ''+''\<rparr>, \<lparr>ident = ''Sub'', val = None\<rparr>]\<rparr> \<and>
     map_of mm ''Plot.width'' = Some \<lparr>feature = ''Plot'', handler = ''width'',
        variants = [\<lparr>ident = ''Plot.width'', val = Some ''b''\<rparr>]\<rparr> \<and>
     map_of mm ''Plot'' = None"
proof -
  let ?fm = "Map.empty(''Op'' \<mapsto> ''Op'', ''Plot'' \<mapsto> ''Plot'')"
  let ?rows = "[\<lparr>vp_feature = ''Op'', vp_handler = ''Op'', variant_feature = ''Add'', variant_value = ''+''\<rparr>,
        \<lparr>vp_feature = ''Plot'', vp_handler = ''width'', variant_feature = ''Plot.width'', variant_value = ''a''\<rparr>,
        \<lparr>vp_feature = ''Op'', vp_handler = ''Op'', variant_feature = ''Sub'', variant_value = ''-''\<rparr>,
        \<lparr>vp_feature = ''Plot'', vp_handler = ''width'', variant_feature = ''Plot.width'', variant_value = ''b''\<rparr>]"
  have known: "\<forall>r \<in> set ?rows. ?fm (vp_feature r) \<noteq> None" by simp
  have keys: "first_keys ?rows = [''Op'', ''Plot.width'']"
    by (simp add: first_keys_def row_key_def)
  have p1: "point_of ?fm ''Op'' ?rows = Some \<lparr>feature = ''Op'', handler = ''Op'',
        variants = [\<lparr>ident = ''Add'', val = Some ''+''\<rparr>, \<lparr>ident = ''Sub'', val = None\<rparr>]\<rparr>"
    by (simp add: point_of_def row_key_def row_variant_def Variant_def)
  have p2: "point_of ?fm ''Plot.width'' ?rows = Some \<lparr>feature = ''Plot'', handler = ''width'',
        variants = [\<lparr>ident = ''Plot.width'', val = Some ''b''\<rparr>]\<rparr>"
    by (simp add: point_of_def row_key_def row_variant_def Variant_def)
  have p3: "point_of ?fm ''Plot'' ?rows = None"
    by (simp add: point_of_def row_key_def)
  from load_mapping_model_points [OF known]
  obtain mm where "load_mapping_model ?rows ?fm = Inr mm" and "dict_keys mm = first_keys ?rows"
    and "\<forall>k. map_of mm k = point_of ?fm k ?rows"
    by blast
  with keys p1 p2 p3 show ?thesis
    by (intro exI [of _ mm]) (simp only: simp_thms)
qed

theorem load_mapping_model_dotted_rows_counterexample:
  "load_mapping_model
     [\<lparr>vp_feature = ''Plot'', vp_handler = ''width'', variant_feature = ''Plot.width'', variant_value = ''a''\<rparr>,
      \<lparr>vp_feature = ''Plot'', vp_handler = ''width'', variant_feature = ''Plot.width'', variant_value = ''b''\<rparr>]
     (Map.empty(''Plot'' \<mapsto> ''Plot''))
   = Inr [(''Plot.width'', \<lparr>feature = ''Plot'', handler = ''width'',
             variants = [\<lparr>ident = ''Plot.width'', val = Some ''b''\<rparr>]\<rparr>)]"
  by (simp add: load_mapping_model_def load_row_def get_feature_from_fm_def dict_keys_def
        VariationPoint_def append_variant_def row_variant_def Variant_def)

section \<open>The null value\<close>

text \<open>
  C4, as the code has it. A row whose value is \<open>"-"\<close> puts a variant with the null value
  at the end of its point. When the first variant whose guard is selected has no dot in
  its identifier and carries the null value, \<open>get_variant_value\<close> returns the null
  value and raises nothing; it is the value that \<open>get_variant_value\<close> returns when no
  guard is selected, so the result alone does not tell the two apart.
\<close>

theorem null_value_resolution:
  "(load_mapping_model (rows @ [r]) fm = Inr mm \<and> variant_value r = ''-'' \<longrightarrow>
      (\<exists>point. map_of mm (row_key r) = Some point \<and> variants point \<noteq> [] \<and>
         last (variants point) = \<lparr>ident = variant_feature r, val = None\<rparr>)) \<and>
   (variants vp = pre @ x # post \<and> (\<forall>p \<in> set pre. guard_rejected fm configurations p) \<and>
    guard_satisfied fm configurations x \<and> CHR ''.'' \<notin> set (ident x) \<and> val x = None \<longrightarrow>
      get_variant_value fm vp configurations attrs = Inr None) \<and>
   ((\<forall>p \<in> set (variants vp). guard_rejected fm configurations p) \<longrightarrow>
      get_variant_value fm vp configurations attrs = Inr None)"
proof (intro conjI impI)
  assume a: "load_mapping_model (rows @ [r]) fm = Inr mm \<and> variant_value r = ''-''"
  then have "load_rows fm (rows @ [r]) [] = Inr mm" by (simp add: load_mapping_model_def)
  from load_rows_last_variant [OF this] a
  show "\<exists>point. map_of mm (row_key r) = Some point \<and> variants point \<noteq> [] \<and>
         last (variants point) = \<lparr>ident = variant_feature r, val = None\<rparr>"
    by (simp add: row_variant_def Variant_def)
next
  assume a: "variants vp = pre @ x # post \<and> (\<forall>p \<in> set pre. guard_rejected fm configurations p) \<and>
    guard_satisfied fm configurations x \<and> CHR ''.'' \<notin> set (ident x) \<and> val x = None"
  then have skip: "first_variant fm (pre @ x # post) configurations attrs =
      first_variant fm (x # post) configurations attrs"
    using first_variant_skip by blast
  from a have none: "candidate x attrs = None" by (simp add: candidate_def)
  from a have "first_variant fm (x # post) configurations attrs = Inr (candidate x attrs)"
    using first_variant_hit by blast
  with a skip none show "get_variant_value fm vp configurations attrs = Inr None"
    by (simp only: get_variant_value_def)
next
  assume "\<forall>p \<in> set (variants vp). guard_rejected fm configurations p"
  then show "get_variant_value fm vp configurations attrs = Inr None"
    by (simp only: get_variant_value_def first_variant_all_rejected)
qed

theorem null_value_resolution_witness:
  "(\<exists>point. map_of [(''Op'', \<lparr>feature = ''Op'', handler = ''Op'',
                               variants = [\<lparr>ident = ''Sub'', val = None\<rparr>]\<rparr>)] ''Op'' = Some point \<and>
      variants point \<noteq> [] \<and> last (variants point) = \<lparr>ident = ''Sub'', val = None\<rparr>) \<and>
   get_variant_value (Map.empty(''Op'' \<mapsto> ''Op'', ''Add'' \<mapsto> ''Add'', ''Sub'' \<mapsto> ''Sub''))
     \<lparr>feature = ''Op'', handler = ''Op'',
      variants = [\<lparr>ident = ''Add'', val = Some ''+''\<rparr>, \<lparr>ident = ''Sub'', val = None\<rparr>]\<rparr>
     [Map.empty(''Op'' \<mapsto> True, ''Add'' \<mapsto> False, ''Sub'' \<mapsto> True)] [] = Inr None \<and>
   get_variant_value (Map.empty(''Op'' \<mapsto> ''Op'', ''Add'' \<mapsto> ''Add'', ''Sub'' \<mapsto> ''Sub''))
     \<lparr>feature = ''Op'', handler = ''Op'', variants = [\<lparr>ident = ''Add'', val = Some ''+''\<rparr>]\<rparr>
     [Map.empty(''Op'' \<mapsto> True, ''Add'' \<mapsto> False, ''Sub'' \<mapsto> True)] [] = Inr None"
proof -
  let ?fm = "Map.empty(''Op'' \<mapsto> ''Op'', ''Add'' \<mapsto> ''Add'', ''Sub'' \<mapsto> ''Sub'')"
  let ?cs = "[Map.empty(''Op'' \<mapsto> True, ''Add'' \<mapsto> False, ''Sub'' \<mapsto> True)]"
  let ?r = "\<lparr>vp_feature = ''Op'', vp_handler = ''Op'', variant_feature = ''Sub'', variant_value = ''-''\<rparr>"
  let ?add = "\<lparr>ident = ''Add'', val = Some ''+''\<rparr>"
  let ?sub = "\<lparr>ident = ''Sub'', val = None\<rparr>"
  let ?mm = "[(''Op'', \<lparr>feature = ''Op'', handler = ''Op'', variants = [?sub]\<rparr>)]"
  let ?vp = "\<lparr>feature = ''Op'', handler = ''Op'', variants = [?add, ?sub]\<rparr>"
  let ?vp' = "\<lparr>feature = ''Op'', handler = ''Op'', variants = [?add]\<rparr>"
  have l: "load_mapping_model ([] @ [?r]) ?fm = Inr ?mm" "variant_value ?r = ''-''"
    "row_key ?r = ''Op''" "variant_feature ?r = ''Sub''"
    by (simp_all add: load_mapping_model_def load_row_def get_feature_from_fm_def dict_keys_def
          VariationPoint_def append_variant_def row_variant_def Variant_def row_key_def)
  have g: "variants ?vp = [?add] @ ?sub # []" "\<forall>p \<in> set [?add]. guard_rejected ?fm ?cs p"
    "guard_satisfied ?fm ?cs ?sub" "CHR ''.'' \<notin> set (ident ?sub)" "val ?sub = None"
    "\<forall>p \<in> set (variants ?vp'). guard_rejected ?fm ?cs p"
    by (simp_all add: guard_rejected_def guard_satisfied_def guard_name_def
          is_selected_in_a_configuration_def)
  note t1 = null_value_resolution [of "[]" ?r ?fm ?mm ?vp "[?add]" ?sub "[]" ?cs "[]"]
  note t2 = null_value_resolution [of "[]" ?r ?fm ?mm ?vp' "[?add]" ?sub "[]" ?cs "[]"]
  have c1: "\<exists>point. map_of ?mm (row_key ?r) = Some point \<and> variants point \<noteq> [] \<and>
      last (variants point) = \<lparr>ident = variant_feature ?r, val = None\<rparr>"
    using t1 l(1,2) by blast
  have c2: "get_variant_value ?fm ?vp ?cs [] = Inr None"
    using t1 g(1-5) by blast
  have c3: "get_variant_value ?fm ?vp' ?cs [] = Inr None"
    using t2 g(6) by blast
  from c1 c2 c3 show ?thesis
    unfolding l(3,4) by blast
qed

theorem null_value_same_as_no_match_counterexample:
  "load_mapping_model
     [\<lparr>vp_feature = ''Op'', vp_handler = ''Op'', variant_feature = ''Sub'', variant_value = ''-''\<rparr>]
     (Map.empty(''Op'' \<mapsto> ''Op'', ''Add'' \<mapsto> ''Add'', ''Sub'' \<mapsto> ''Sub''))
     = Inr [(''Op'', \<lparr>feature = ''Op'', handler = ''Op'', variants = [\<lparr>ident = ''Sub'', val = None\<rparr>]\<rparr>)] \<and>
   guard_satisfied (Map.empty(''Op'' \<mapsto> ''Op'', ''Add'' \<mapsto> ''Add'', ''Sub'' \<mapsto> ''Sub''))
     [Map.empty(''Op'' \<mapsto> True, ''Add'' \<mapsto> False, ''Sub'' \<mapsto> True)] \<lparr>ident = ''Sub'', val = None\<rparr> \<and>
   get_variant_value (Map.empty(''Op'' \<mapsto> ''Op'', ''Add'' \<mapsto> ''Add'', ''Sub'' \<mapsto> ''Sub''))
     \<lparr>feature = ''Op'', handler = ''Op'', variants = [\<lparr>ident = ''Sub'', val = None\<rparr>]\<rparr>
     [Map.empty(''Op'' \<mapsto> True, ''Add'' \<mapsto> False, ''Sub'' \<mapsto> True)] [] = Inr None \<and>
   \<not> guard_satisfied (Map.empty(''Op'' \<mapsto> ''Op'', ''Add'' \<mapsto> ''Add'', ''Sub'' \<mapsto> ''Sub''))
     [Map.empty(''Op'' \<mapsto> True, ''Add'' \<mapsto> False, ''Sub'' \<mapsto> True)] \<lparr>ident = ''Add'', val = Some ''+''\<rparr> \<and>
   get_variant_value (Map.empty(''Op'' \<mapsto> ''Op'', ''Add'' \<mapsto> ''Add'', ''Sub'' \<mapsto> ''Sub''))
     \<lparr>feature = ''Op'', handler = ''Op'', variants = [\<lparr>ident = ''Add'', val = Some ''+''\<rparr>]\<rparr>
     [Map.empty(''Op'' \<mapsto> True, ''Add'' \<mapsto> False, ''Sub'' \<mapsto> True)] [] = Inr None"
  by (simp add: load_mapping_model_def load_row_def get_feature_from_fm_def dict_keys_def
        VariationPoint_def append_variant_def row_variant_def Variant_def
        guard_satisfied_def guard_name_def candidate_def get_variant_value_def
        is_selected_in_a_configuration_def)

section \<open>The specializer: renaming\<close>

lemma rename_values_present:
  "list_all (\<lambda>x. val x \<noteq> None) xs \<Longrightarrow>
   rename_values i xs =
     Inr (map (\<lambda>x. x\<lparr>val := map_option (replace ''Expr'' (''Expr'' @ str i)) (val x)\<rparr>) xs)"
  by (induction xs) auto

lemma rename_values_null:
  "\<not> list_all (\<lambda>x. val x \<noteq> None) xs \<Longrightarrow> rename_values i xs = Inl AttributeError"
  by (induction xs) (auto split: option.splits sum.splits)

lemma specialize_items_present:
  "expr_values_present mm \<Longrightarrow> specialize_items i mm = Inr (specialized_model i mm)"
proof (induction mm)
  case Nil
  show ?case by (simp add: specialized_model_def)
next
  case (Cons p mm)
  obtain k v where p: "p = (k, v)" by (cases p)
  from Cons.prems p have rest: "expr_values_present mm"
    and here: "handler v = ''Expr'' \<longrightarrow> list_all (\<lambda>x. val x \<noteq> None) (variants v)"
    by (simp_all add: expr_values_present_def)
  have "specialize_point i v =
      Inr (specialized (if i = 0 then ''Expr'' else ''Expr'' @ str (i - 1)) (''Expr'' @ str i) v)"
    using here by (auto simp: specialize_point_def specialized_def rename_values_present)
  with Cons.IH [OF rest] p show ?case
    by (simp add: specialized_model_def)
qed

lemma specialize_items_null:
  "\<not> expr_values_present mm \<Longrightarrow> specialize_items i mm = Inl AttributeError"
proof (induction mm)
  case Nil
  then show ?case by (simp add: expr_values_present_def)
next
  case (Cons p mm)
  obtain k v where p: "p = (k, v)" by (cases p)
  show ?case
  proof (cases "handler v = ''Expr'' \<and> \<not> list_all (\<lambda>x. val x \<noteq> None) (variants v)")
    case True
    then show ?thesis
      using p by (simp add: specialize_point_def rename_values_null)
  next
    case False
    with Cons.prems p have "\<not> expr_values_present mm"
      by (auto simp: expr_values_present_def)
    moreover have "\<exists>v'. specialize_point i v = Inr v'"
    proof (cases "handler v = ''Expr''")
      case True
      with False have "list_all (\<lambda>x. val x \<noteq> None) (variants v)" by blast
      from rename_values_present [OF this, of i] True show ?thesis
        by (simp add: specialize_point_def)
    next
      case False
      then show ?thesis by (simp add: specialize_point_def)
    qed
    ultimately show ?thesis
      using Cons.IH p by auto
  qed
qed

lemma specialize_each_present:
  "expr_values_present mm \<Longrightarrow>
   specialize_each mm i cfgs = Inr (map (\<lambda>j. specialized_model j mm) [i ..< i + length cfgs])"
proof (induction cfgs arbitrary: i)
  case Nil
  show ?case by simp
next
  case (Cons c cfgs)
  have "[i ..< i + length (c # cfgs)] = i # [Suc i ..< Suc i + length cfgs]"
    by (simp add: upt_rec)
  with Cons.IH [OF Cons.prems, of "Suc i"] Cons.prems show ?case
    by (simp add: specialize_items_present)
qed

lemma specialize_each_null:
  "\<not> expr_values_present mm \<Longrightarrow> cfgs \<noteq> [] \<Longrightarrow> specialize_each mm i cfgs = Inl AttributeError"
  by (cases cfgs) (simp_all add: specialize_items_null)

lemma str_small: "str 0 = ''0''" "str (Suc 0) = ''1''" "str 1 = ''1''" "str 2 = ''2''"
  by (simp_all add: str.simps digit_def)

lemma replace_example:
  "replace ''Expr'' ''Expr0'' ''(Expr And Expr)'' = ''(Expr0 And Expr0)''"
  "replace ''Expr'' ''Expr1'' ''(Expr And Expr)'' = ''(Expr1 And Expr1)''"
  "replace ''Expr'' ''Expr2'' ''(Expr And Expr)'' = ''(Expr2 And Expr2)''"
  "replace ''Expr'' ''Expr0'' ''x'' = ''x''"
  "replace ''Expr'' ''Expr1'' ''x'' = ''x''"
  "replace ''Expr'' ''Expr2'' ''x'' = ''x''"
  by code_simp+

lemma null_value_not_present:
  "(k, vp) \<in> set mm \<Longrightarrow> handler vp = ''Expr'' \<Longrightarrow> x \<in> set (variants vp) \<Longrightarrow> val x = None \<Longrightarrow>
   \<not> expr_values_present mm"
proof
  assume a: "(k, vp) \<in> set mm" "handler vp = ''Expr''" "x \<in> set (variants vp)" "val x = None"
  assume "expr_values_present mm"
  then have "\<forall>p \<in> set mm. case p of (k, vp) \<Rightarrow>
      handler vp = ''Expr'' \<longrightarrow> (\<forall>x \<in> set (variants vp). val x \<noteq> None)"
    unfolding expr_values_present_def list_all_iff .
  with a(1) have "handler vp = ''Expr'' \<longrightarrow> (\<forall>x \<in> set (variants vp). val x \<noteq> None)"
    by fastforce
  with a(2,3,4) show False by blast
qed

section \<open>The specializer: isolation of the copies\<close>

lemma extends_refl: "extends h h"
  by (simp add: extends_def)

lemma extends_trans: "extends h1 h2 \<Longrightarrow> extends h2 h3 \<Longrightarrow> extends h1 h3"
  by (auto simp: extends_def)

lemma copy_variant_inv:
  assumes "copy_inv h0 s" and "copy_variant r s = (r', s')"
  shows "copy_inv h0 s' \<and> extends (fst s) (fst s') \<and>
         length (variant_cells h0) \<le> r' \<and> r' < length (variant_cells (fst s'))"
proof -
  obtain h m where s: "s = (h, m)" by (cases s)
  show ?thesis
  proof (cases "memo_variants m r")
    case None
    with assms s show ?thesis
      by (auto simp: copy_variant_def copy_inv_def extends_def fresh_closed_def memo_fresh_def
            nth_append less_Suc_eq split: if_splits)
  next
    case (Some r0)
    with assms s show ?thesis
      by (auto simp: copy_variant_def copy_inv_def extends_def memo_fresh_def)
  qed
qed

lemma copy_variants_inv:
  "copy_inv h0 s \<Longrightarrow> copy_variants rs s = (rs', s') \<Longrightarrow>
   copy_inv h0 s' \<and> extends (fst s) (fst s') \<and>
   (\<forall>v \<in> set rs'. length (variant_cells h0) \<le> v \<and> v < length (variant_cells (fst s')))"
proof (induction rs arbitrary: s rs')
  case Nil
  then show ?case by (simp add: extends_refl)
next
  case (Cons r rs)
  from Cons.prems(2) obtain r1 s1 rs1 where
    c1: "copy_variant r s = (r1, s1)" and c2: "copy_variants rs s1 = (rs1, s')" and
    rs': "rs' = r1 # rs1"
    by (auto split: prod.splits)
  from copy_variant_inv [OF Cons.prems(1) c1]
  have i1: "copy_inv h0 s1" and e1: "extends (fst s) (fst s1)"
    and r1: "length (variant_cells h0) \<le> r1" "r1 < length (variant_cells (fst s1))"
    by simp_all
  from Cons.IH [OF i1 c2]
  have i2: "copy_inv h0 s'" and e2: "extends (fst s1) (fst s')"
    and rs1: "\<forall>v \<in> set rs1. length (variant_cells h0) \<le> v \<and> v < length (variant_cells (fst s'))"
    by simp_all
  from e2 r1 have "r1 < length (variant_cells (fst s'))" by (simp add: extends_def)
  with i2 e1 e2 r1 rs1 rs' show ?case
    using extends_trans by auto
qed

lemma copy_list_inv:
  assumes inv: "copy_inv h0 s" and run: "copy_list r s = (r', s')"
  shows "copy_inv h0 s' \<and> extends (fst s) (fst s') \<and>
         length (list_cells h0) \<le> r' \<and> r' < length (list_cells (fst s'))"
proof -
  obtain h m where s: "s = (h, m)" by (cases s)
  show ?thesis
  proof (cases "memo_lists m r")
    case (Some r0)
    with inv run s show ?thesis
      by (auto simp: copy_list_def copy_inv_def extends_def memo_fresh_def)
  next
    case None
    obtain rs1 h1 m1 where c: "copy_variants (list_cells h ! r) (h, m) = (rs1, h1, m1)"
      by (cases "copy_variants (list_cells h ! r) (h, m)") auto
    from copy_variants_inv [OF inv [unfolded s] c]
    have i1: "copy_inv h0 (h1, m1)" and e1: "extends h h1"
      and f1: "\<forall>v \<in> set rs1. length (variant_cells h0) \<le> v \<and> v < length (variant_cells h1)"
      by simp_all
    from run s None c have r': "r' = length (list_cells h1)"
      and s': "s' = (h1\<lparr>list_cells := list_cells h1 @ [rs1]\<rparr>,
                     m1\<lparr>memo_lists := (memo_lists m1)(r \<mapsto> length (list_cells h1))\<rparr>)"
      by (auto simp: copy_list_def)
    have e2: "extends h1 (h1\<lparr>list_cells := list_cells h1 @ [rs1]\<rparr>)"
      by (simp add: extends_def nth_append)
    have "copy_inv h0 s'"
      using i1 f1 unfolding s'
      by (auto simp: copy_inv_def extends_def fresh_closed_def memo_fresh_def
            nth_append less_Suc_eq split: if_splits)
    moreover have "extends (fst s) (fst s')"
      using extends_trans [OF e1 e2] by (simp add: s s')
    moreover have "length (list_cells h0) \<le> r'" "r' < length (list_cells (fst s'))"
      using i1 by (simp_all add: r' s' copy_inv_def extends_def)
    ultimately show ?thesis by blast
  qed
qed

lemma copy_point_inv:
  assumes inv: "copy_inv h0 s" and run: "copy_point r s = (r', s')"
  shows "copy_inv h0 s' \<and> extends (fst s) (fst s') \<and>
         length (point_cells h0) \<le> r' \<and> r' < length (point_cells (fst s'))"
proof -
  obtain h m where s: "s = (h, m)" by (cases s)
  show ?thesis
  proof (cases "memo_points m r")
    case (Some r0)
    with inv run s show ?thesis
      by (auto simp: copy_point_def copy_inv_def extends_def memo_fresh_def)
  next
    case None
    obtain l1 h1 m1 where c: "copy_list (cell_variants (point_cells h ! r)) (h, m) = (l1, h1, m1)"
      by (cases "copy_list (cell_variants (point_cells h ! r)) (h, m)") auto
    from copy_list_inv [OF inv [unfolded s] c]
    have i1: "copy_inv h0 (h1, m1)" and e1: "extends h h1"
      and f1: "length (list_cells h0) \<le> l1" "l1 < length (list_cells h1)"
      by simp_all
    let ?h2 = "h1\<lparr>point_cells := point_cells h1 @ [(point_cells h ! r)\<lparr>cell_variants := l1\<rparr>]\<rparr>"
    from run s None c have r': "r' = length (point_cells h1)"
      and s': "s' = (?h2, m1\<lparr>memo_points := (memo_points m1)(r \<mapsto> length (point_cells h1))\<rparr>)"
      by (auto simp: copy_point_def)
    have e2: "extends h1 ?h2"
      by (simp add: extends_def nth_append)
    have "copy_inv h0 s'"
      using i1 f1 unfolding s'
      by (auto simp: copy_inv_def extends_def fresh_closed_def memo_fresh_def
            nth_append less_Suc_eq split: if_splits)
    moreover have "extends (fst s) (fst s')"
      using extends_trans [OF e1 e2] by (simp add: s s')
    moreover have "length (point_cells h0) \<le> r'" "r' < length (point_cells (fst s'))"
      using i1 by (simp_all add: r' s' copy_inv_def extends_def)
    ultimately show ?thesis by blast
  qed
qed

lemma copy_items_inv:
  "copy_inv h0 s \<Longrightarrow> copy_items items s = (items', s') \<Longrightarrow>
   copy_inv h0 s' \<and> extends (fst s) (fst s') \<and>
   (\<forall>p \<in> snd ` set items'. length (point_cells h0) \<le> p \<and> p < length (point_cells (fst s')))"
proof (induction items arbitrary: s items')
  case Nil
  then show ?case by (simp add: extends_refl)
next
  case (Cons kr items)
  obtain k r where kr: "kr = (k, r)" by (cases kr)
  from Cons.prems(2) kr obtain r1 s1 items1 where
    c1: "copy_point r s = (r1, s1)" and c2: "copy_items items s1 = (items1, s')" and
    items': "items' = (k, r1) # items1"
    by (auto split: prod.splits)
  from copy_point_inv [OF Cons.prems(1) c1]
  have i1: "copy_inv h0 s1" and e1: "extends (fst s) (fst s1)"
    and r1: "length (point_cells h0) \<le> r1" "r1 < length (point_cells (fst s1))"
    by simp_all
  from Cons.IH [OF i1 c2]
  have i2: "copy_inv h0 s'" and e2: "extends (fst s1) (fst s')"
    and rs1: "\<forall>p \<in> snd ` set items1. length (point_cells h0) \<le> p \<and> p < length (point_cells (fst s'))"
    by simp_all
  from e2 r1 have "r1 < length (point_cells (fst s'))" by (simp add: extends_def)
  with i2 e1 e2 r1 rs1 items' show ?case
    using extends_trans by auto
qed

lemma copy_inv_start: "copy_inv h (h, empty_memo)"
  by (simp add: copy_inv_def extends_refl fresh_closed_def memo_fresh_def empty_memo_def)

lemma deepcopy_fresh:
  assumes "deepcopy d h = (d', h1)"
  shows "extends h h1 \<and> d' = length (dict_cells h) \<and> length (dict_cells h1) = Suc (length (dict_cells h)) \<and>
         fresh_closed h h1 \<and>
         (\<forall>p \<in> points_of h1 d'. length (point_cells h) \<le> p \<and> p < length (point_cells h1))"
proof -
  obtain items1 h2 m2 where c: "copy_items (dict_cells h ! d) (h, empty_memo) = (items1, h2, m2)"
    by (cases "copy_items (dict_cells h ! d) (h, empty_memo)") auto
  from copy_items_inv [OF copy_inv_start c]
  have i: "copy_inv h (h2, m2)" and e: "extends h h2"
    and f: "\<forall>p \<in> snd ` set items1. length (point_cells h) \<le> p \<and> p < length (point_cells h2)"
    by simp_all
  from assms c have d': "d' = length (dict_cells h2)"
    and h1: "h1 = h2\<lparr>dict_cells := dict_cells h2 @ [items1]\<rparr>"
    by (auto simp: deepcopy_def)
  from i have dc: "dict_cells h2 = dict_cells h" by (simp add: copy_inv_def)
  have "extends h2 h1" by (simp add: h1 extends_def nth_append)
  with e have "extends h h1" by (rule extends_trans)
  moreover have "fresh_closed h h1"
    using i by (simp add: h1 copy_inv_def fresh_closed_def)
  moreover have "\<forall>p \<in> points_of h1 d'. length (point_cells h) \<le> p \<and> p < length (point_cells h1)"
    using f by (simp add: points_of_def h1 d')
  ultimately show ?thesis
    by (simp add: d' dc h1)
qed

lemma mutated_refl: "mutated h0 h h"
  by (simp add: mutated_def)

lemma mutated_trans: "mutated h0 h1 h2 \<Longrightarrow> mutated h0 h2 h3 \<Longrightarrow> mutated h0 h1 h3"
  by (auto simp: mutated_def)

lemma set_value_mutated:
  "length (variant_cells h0) \<le> r \<Longrightarrow> set_value i r h = Inr h' \<Longrightarrow> mutated h0 h h'"
  by (auto simp: set_value_def mutated_def split: option.splits)

lemma set_values_mutated:
  "\<forall>r \<in> set rs. length (variant_cells h0) \<le> r \<Longrightarrow> set_values i rs h = Inr h' \<Longrightarrow>
   mutated h0 h h'"
proof (induction rs arbitrary: h)
  case Nil
  then show ?case by (simp add: mutated_refl)
next
  case (Cons r rs)
  from Cons.prems(2) obtain h1 where s1: "set_value i r h = Inr h1"
    and s2: "set_values i rs h1 = Inr h'"
    by (auto split: sum.splits)
  from Cons.prems(1) have "mutated h0 h h1"
    using set_value_mutated [OF _ s1] by simp
  moreover from Cons.prems(1) have "mutated h0 h1 h'"
    using Cons.IH [OF _ s2] by simp
  ultimately show ?case by (rule mutated_trans)
qed

lemma set_handler_mutated:
  "length (point_cells h0) \<le> r \<Longrightarrow> mutated h0 h (set_handler i r h)"
proof -
  have "cell_variants ((point_cells h)[r := (point_cells h ! r)\<lparr>cell_handler := x\<rparr>] ! a)
      = cell_variants (point_cells h ! a)" if "a < length (point_cells h)" for a x
    using that by (cases "a = r") simp_all
  moreover assume "length (point_cells h0) \<le> r"
  ultimately show ?thesis
    by (simp add: set_handler_def mutated_def)
qed

lemma mutate_point_mutated:
  assumes closed: "fresh_closed h0 h"
    and r: "length (point_cells h0) \<le> r" "r < length (point_cells h)"
    and run: "mutate_point i r h = Inr h'"
  shows "mutated h0 h h'"
proof (cases "cell_handler (point_cells h ! r) = ''Expr''")
  case False
  with run show ?thesis by (simp add: mutate_point_def mutated_refl)
next
  case True
  let ?l = "cell_variants (point_cells h ! r)"
  from closed r have "length (list_cells h0) \<le> ?l \<and> ?l < length (list_cells h)"
    unfolding fresh_closed_def by blast
  with closed have "\<forall>v \<in> set (list_cells h ! ?l). length (variant_cells h0) \<le> v"
    unfolding fresh_closed_def by blast
  moreover from run True have "set_values i (list_cells h ! ?l) (set_handler i r h) = Inr h'"
    by (simp add: mutate_point_def)
  ultimately have "mutated h0 (set_handler i r h) h'"
    by (rule set_values_mutated)
  with set_handler_mutated [OF r(1)] show ?thesis
    by (rule mutated_trans)
qed

lemma mutated_fresh_closed:
  "mutated h0 h h' \<Longrightarrow> fresh_closed h0 h \<Longrightarrow> fresh_closed h0 h'"
  by (simp add: mutated_def fresh_closed_def)

lemma mutate_items_mutated:
  "fresh_closed h0 h \<Longrightarrow>
   \<forall>p \<in> snd ` set items. length (point_cells h0) \<le> p \<and> p < length (point_cells h) \<Longrightarrow>
   mutate_items i items h = Inr h' \<Longrightarrow> mutated h0 h h'"
proof (induction items arbitrary: h)
  case Nil
  then show ?case by (simp add: mutated_refl)
next
  case (Cons kr items)
  obtain k r where kr: "kr = (k, r)" by (cases kr)
  from Cons.prems(3) kr obtain h1 where s1: "mutate_point i r h = Inr h1"
    and s2: "mutate_items i items h1 = Inr h'"
    by (auto split: sum.splits)
  from Cons.prems(2) kr have r: "length (point_cells h0) \<le> r" "r < length (point_cells h)"
    by simp_all
  have m1: "mutated h0 h h1"
    by (rule mutate_point_mutated [OF Cons.prems(1) r s1])
  then have c1: "fresh_closed h0 h1"
    using Cons.prems(1) by (rule mutated_fresh_closed)
  from m1 Cons.prems(2) have
    "\<forall>p \<in> snd ` set items. length (point_cells h0) \<le> p \<and> p < length (point_cells h1)"
    by (simp add: mutated_def)
  from Cons.IH [OF c1 this s2] have "mutated h0 h1 h'" .
  with m1 show ?case by (rule mutated_trans)
qed

lemma mutated_extends: "extends h0 h \<Longrightarrow> mutated h0 h h' \<Longrightarrow> extends h0 h'"
  by (auto simp: extends_def mutated_def)

lemma closed_occupies:
  assumes closed: "fresh_closed lo h"
    and d: "length (dict_cells lo) \<le> d" "d < length (dict_cells h)"
    and points: "\<forall>p \<in> points_of h d. length (point_cells lo) \<le> p \<and> p < length (point_cells h)"
  shows "occupies lo h h d"
proof -
  have lists: "\<forall>l \<in> lists_of h d. length (list_cells lo) \<le> l \<and> l < length (list_cells h)"
    using closed points by (auto simp: lists_of_def fresh_closed_def)
  have "\<forall>v \<in> variants_of h d. length (variant_cells lo) \<le> v \<and> v < length (variant_cells h)"
  proof
    fix v assume "v \<in> variants_of h d"
    then obtain l where l: "l \<in> lists_of h d" and v: "v \<in> set (list_cells h ! l)"
      by (auto simp: variants_of_def)
    from lists l have "length (list_cells lo) \<le> l \<and> l < length (list_cells h)" by blast
    with closed v show "length (variant_cells lo) \<le> v \<and> v < length (variant_cells h)"
      by (simp add: fresh_closed_def)
  qed
  with d points lists show ?thesis
    by (simp add: occupies_def)
qed

lemma iteration_occupies:
  assumes copy: "deepcopy d h = (d', h1)"
    and mutate: "mutate_items i (dict_cells h1 ! d') h1 = Inr h2"
  shows "extends h h2 \<and> occupies h h2 h2 d'"
proof -
  from deepcopy_fresh [OF copy]
  have e1: "extends h h1" and d': "d' = length (dict_cells h)"
    and len: "length (dict_cells h1) = Suc (length (dict_cells h))"
    and c1: "fresh_closed h h1"
    and p1: "\<forall>p \<in> points_of h1 d'. length (point_cells h) \<le> p \<and> p < length (point_cells h1)"
    by simp_all
  from p1 have "\<forall>p \<in> snd ` set (dict_cells h1 ! d'). length (point_cells h) \<le> p \<and> p < length (point_cells h1)"
    by (simp add: points_of_def)
  from mutate_items_mutated [OF c1 this mutate] have m: "mutated h h1 h2" .
  from e1 m have e2: "extends h h2" by (rule mutated_extends)
  from m c1 have c2: "fresh_closed h h2" by (rule mutated_fresh_closed)
  from m p1 have p2: "\<forall>p \<in> points_of h2 d'. length (point_cells h) \<le> p \<and> p < length (point_cells h2)"
    by (simp add: mutated_def points_of_def)
  from m len d' have "length (dict_cells h) \<le> d'" "d' < length (dict_cells h2)"
    by (simp_all add: mutated_def)
  from closed_occupies [OF c2 this p2] e2 show ?thesis by blast
qed

lemma read_frame:
  assumes "dict_cells h' ! d = dict_cells h ! d"
    and "\<forall>p \<in> points_of h d. point_cells h' ! p = point_cells h ! p"
    and "\<forall>l \<in> lists_of h d. list_cells h' ! l = list_cells h ! l"
    and "\<forall>v \<in> variants_of h d. variant_cells h' ! v = variant_cells h ! v"
  shows "read_model h' d = read_model h d" and "points_of h' d = points_of h d"
    and "lists_of h' d = lists_of h d" and "variants_of h' d = variants_of h d"
proof -
  show p: "points_of h' d = points_of h d"
    using assms(1) by (simp add: points_of_def)
  show l: "lists_of h' d = lists_of h d"
    using assms(2) p by (simp add: lists_of_def)
  show v: "variants_of h' d = variants_of h d"
    using assms(3) l by (simp add: variants_of_def)
  have "read_point h' r = read_point h r" if r: "r \<in> points_of h d" for r
  proof -
    from r assms(2) have c: "point_cells h' ! r = point_cells h ! r" by blast
    from r have lin: "cell_variants (point_cells h ! r) \<in> lists_of h d"
      by (simp add: lists_of_def)
    with assms(3) have lc: "list_cells h' ! cell_variants (point_cells h ! r)
        = list_cells h ! cell_variants (point_cells h ! r)" by blast
    have "variant_cells h' ! x = variant_cells h ! x"
      if "x \<in> set (list_cells h ! cell_variants (point_cells h ! r))" for x
    proof -
      from that lin have "x \<in> variants_of h d" by (auto simp: variants_of_def)
      with assms(4) show ?thesis by blast
    qed
    with c lc show ?thesis by (simp add: read_point_def)
  qed
  then have "read_point h' (snd kr) = read_point h (snd kr)" if "kr \<in> set (dict_cells h ! d)" for kr
    using that by (simp add: points_of_def)
  then show "read_model h' d = read_model h d"
    using assms(1) by (auto simp: read_model_def)
qed

lemma wf_extends:
  assumes wf: "wf_model h d" and ext: "extends h h'"
  shows "read_model h' d = read_model h d" and "points_of h' d = points_of h d"
    and "lists_of h' d = lists_of h d" and "variants_of h' d = variants_of h d"
    and "wf_model h' d"
proof -
  have a: "dict_cells h' ! d = dict_cells h ! d"
    "\<forall>p \<in> points_of h d. point_cells h' ! p = point_cells h ! p"
    "\<forall>l \<in> lists_of h d. list_cells h' ! l = list_cells h ! l"
    "\<forall>v \<in> variants_of h d. variant_cells h' ! v = variant_cells h ! v"
    using wf ext by (simp_all add: wf_model_def extends_def)
  from read_frame [OF a]
  show r: "read_model h' d = read_model h d" and p: "points_of h' d = points_of h d"
    and l: "lists_of h' d = lists_of h d" and v: "variants_of h' d = variants_of h d"
    by simp_all
  show "wf_model h' d"
    using wf ext unfolding wf_model_def p l v extends_def by fastforce
qed

lemma occupies_wf: "occupies lo hi hi d \<Longrightarrow> wf_model hi d"
  by (simp add: occupies_def wf_model_def)

lemma occupies_extends:
  assumes occ: "occupies lo hi hi d" and ext: "extends hi h'"
  shows "occupies lo h' h' d"
proof -
  from occ have wf: "wf_model hi d" by (rule occupies_wf)
  from wf_extends(2-4) [OF wf ext] occ ext show ?thesis
    unfolding occupies_def extends_def by fastforce
qed

lemma occupies_lower:
  "occupies lo hi h d \<Longrightarrow> extends lo' lo \<Longrightarrow> occupies lo' hi h d"
  unfolding occupies_def extends_def by fastforce

lemma occupies_apart:
  assumes a: "occupies lo mid mid a" and ext: "extends mid h" and b: "occupies mid h h b"
  shows "apart h a b"
proof -
  from a have wf: "wf_model mid a" by (rule occupies_wf)
  note same = wf_extends(2-4) [OF wf ext]
  from a b show ?thesis
    unfolding apart_def same occupies_def by fastforce
qed

lemma apart_sym: "apart h a b \<Longrightarrow> apart h b a"
  by (auto simp: apart_def)

lemma wf_apart:
  assumes wf: "wf_model lo d" and ext: "extends lo h" and b: "occupies lo h h b"
  shows "apart h d b"
proof -
  note same = wf_extends(2-4) [OF wf ext]
  from wf b show ?thesis
    unfolding apart_def same occupies_def wf_model_def by fastforce
qed

lemma copy_each_separate:
  "wf_model h d \<Longrightarrow> copy_each d i cfgs h = Inr (ds, h') \<Longrightarrow>
   extends h h' \<and> length ds = length cfgs \<and> distinct ds \<and>
   (\<forall>x \<in> set ds. occupies h h' h' x) \<and>
   (\<forall>x \<in> set ds. \<forall>y \<in> set ds. x \<noteq> y \<longrightarrow> apart h' x y)"
proof (induction cfgs arbitrary: i h ds)
  case Nil
  then show ?case by (simp add: extends_refl)
next
  case (Cons c cfgs)
  obtain d' h1 where copy: "deepcopy d h = (d', h1)" by (cases "deepcopy d h")
  with Cons.prems(2) obtain h2 ds' where
    mutate: "mutate_items i (dict_cells h1 ! d') h1 = Inr h2"
    and rest: "copy_each d (Suc i) cfgs h2 = Inr (ds', h')" and ds: "ds = d' # ds'"
    by (auto split: sum.splits prod.splits)
  from iteration_occupies [OF copy mutate]
  have e2: "extends h h2" and o2: "occupies h h2 h2 d'" by simp_all
  from wf_extends(5) [OF Cons.prems(1) e2] have wf2: "wf_model h2 d" .
  from Cons.IH [OF wf2 rest]
  have e3: "extends h2 h'" and len: "length ds' = length cfgs" and dist: "distinct ds'"
    and occ: "\<forall>x \<in> set ds'. occupies h2 h' h' x"
    and ap: "\<forall>x \<in> set ds'. \<forall>y \<in> set ds'. x \<noteq> y \<longrightarrow> apart h' x y"
    by simp_all
  have e: "extends h h'" using e2 e3 by (rule extends_trans)
  have o: "occupies h h' h' d'" using o2 e3 by (rule occupies_extends)
  have occ': "\<forall>x \<in> set ds'. occupies h h' h' x"
    using occ e2 occupies_lower by blast
  have ap': "\<forall>x \<in> set ds'. apart h' d' x"
    using occupies_apart [OF o2 e3] occ by blast
  then have "d' \<notin> set ds'" by (auto simp: apart_def)
  with e len dist o occ' ap ap' ds show ?case
    by (auto dest: apart_sym)
qed

lemma changes_only_frame:
  assumes wf: "wf_model h x" and ap: "apart h x y" and ch: "changes_only y h h'"
  shows "read_model h' x = read_model h x"
proof -
  from wf ap ch have "dict_cells h' ! x = dict_cells h ! x"
    by (simp add: wf_model_def apart_def changes_only_def)
  moreover have "\<forall>p \<in> points_of h x. point_cells h' ! p = point_cells h ! p"
    using wf ap ch unfolding wf_model_def apart_def changes_only_def by blast
  moreover have "\<forall>l \<in> lists_of h x. list_cells h' ! l = list_cells h ! l"
    using wf ap ch unfolding wf_model_def apart_def changes_only_def by blast
  moreover have "\<forall>v \<in> variants_of h x. variant_cells h' ! v = variant_cells h ! v"
    using wf ap ch unfolding wf_model_def apart_def changes_only_def by blast
  ultimately show ?thesis by (rule read_frame(1))
qed

lemma changes_only_set_variant:
  "v \<in> variants_of h d \<Longrightarrow> changes_only d h (h\<lparr>variant_cells := (variant_cells h)[v := x]\<rparr>)"
proof -
  assume v: "v \<in> variants_of h d"
  have "(variant_cells h)[v := x] ! a = variant_cells h ! a" if "a \<notin> variants_of h d" for a
  proof -
    from that v have "v \<noteq> a" by blast
    then show ?thesis by simp
  qed
  then show ?thesis by (simp add: changes_only_def)
qed

lemma changes_only_set_point:
  "p \<in> points_of h d \<Longrightarrow> changes_only d h (h\<lparr>point_cells := (point_cells h)[p := c]\<rparr>)"
proof -
  assume p: "p \<in> points_of h d"
  have "(point_cells h)[p := c] ! a = point_cells h ! a" if "a \<notin> points_of h d" for a
  proof -
    from that p have "p \<noteq> a" by blast
    then show ?thesis by simp
  qed
  then show ?thesis by (simp add: changes_only_def)
qed

text \<open>
  C5. The specializer changes no cell of the store it was given: it allocates the
  copies and assigns to their cells only, so the mapping model reads as before. The
  copy made for a configuration index shares no cell with the mapping model or with the
  copy made for another index. So whatever is done afterwards to the cells that one
  copy reaches (and to new cells), the mapping model and the other copies read as
  before.
\<close>

theorem specializer_isolation:
  assumes wf: "wf_model h d"
    and run: "mapping_model_by_configurations_store d cfgs h = Inr (ds, h')"
  shows "length ds = length cfgs \<and> extends h h' \<and> read_model h' d = read_model h d \<and>
     (\<forall>i < length ds. apart h' d (ds ! i) \<and>
        (\<forall>j < length ds. j \<noteq> i \<longrightarrow> apart h' (ds ! j) (ds ! i)) \<and>
        (\<forall>h''. changes_only (ds ! i) h' h'' \<longrightarrow>
           read_model h'' d = read_model h d \<and>
           (\<forall>j < length ds. j \<noteq> i \<longrightarrow> read_model h'' (ds ! j) = read_model h' (ds ! j))))"
proof -
  from run have "copy_each d 0 cfgs h = Inr (ds, h')"
    by (simp add: mapping_model_by_configurations_store_def)
  from copy_each_separate [OF wf this]
  have ext: "extends h h'" and len: "length ds = length cfgs" and dist: "distinct ds"
    and occ: "\<forall>x \<in> set ds. occupies h h' h' x"
    and ap: "\<forall>x \<in> set ds. \<forall>y \<in> set ds. x \<noteq> y \<longrightarrow> apart h' x y"
    by simp_all
  have same: "read_model h' d = read_model h d" and wf': "wf_model h' d"
    using wf_extends [OF wf ext] by simp_all
  have "apart h' d (ds ! i) \<and>
        (\<forall>j < length ds. j \<noteq> i \<longrightarrow> apart h' (ds ! j) (ds ! i)) \<and>
        (\<forall>h''. changes_only (ds ! i) h' h'' \<longrightarrow>
           read_model h'' d = read_model h d \<and>
           (\<forall>j < length ds. j \<noteq> i \<longrightarrow> read_model h'' (ds ! j) = read_model h' (ds ! j)))"
    if i: "i < length ds" for i
  proof -
    from i occ have oi: "occupies h h' h' (ds ! i)" by simp
    have a0: "apart h' d (ds ! i)"
      using wf ext oi by (rule wf_apart)
    have aj: "apart h' (ds ! j) (ds ! i)" if "j < length ds" "j \<noteq> i" for j
    proof -
      from that i dist have "ds ! j \<noteq> ds ! i" by (simp add: nth_eq_iff_index_eq)
      with that i ap show ?thesis by simp
    qed
    have wj: "wf_model h' (ds ! j)" if "j < length ds" for j
    proof -
      from that occ have "occupies h h' h' (ds ! j)" by simp
      then show ?thesis by (rule occupies_wf)
    qed
    have "read_model h'' d = read_model h d \<and>
        (\<forall>j < length ds. j \<noteq> i \<longrightarrow> read_model h'' (ds ! j) = read_model h' (ds ! j))"
      if ch: "changes_only (ds ! i) h' h''" for h''
    proof -
      have "read_model h'' d = read_model h' d"
        using wf' a0 ch by (rule changes_only_frame)
      moreover have "read_model h'' (ds ! j) = read_model h' (ds ! j)"
        if "j < length ds" "j \<noteq> i" for j
        using wj [OF that(1)] aj [OF that] ch by (rule changes_only_frame)
      ultimately show ?thesis using same by simp
    qed
    with a0 aj show ?thesis by blast
  qed
  with len ext same show ?thesis by blast
qed

lemma example_run:
  "mapping_model_by_configurations_store 0 [Map.empty, Map.empty, Map.empty] example_store
     = Inr ([1, 2, 3], example_copies)"
  by code_simp

theorem specializer_isolation_witness:
  "mapping_model_by_configurations_store 0 [Map.empty, Map.empty, Map.empty] example_store
     = Inr ([1, 2, 3], example_copies) \<and>
   read_model (example_copies\<lparr>variant_cells := (variant_cells example_copies)
       [6 := \<lparr>ident = ''And'', val = Some ''changed''\<rparr>]\<rparr>) 3 \<noteq> read_model example_copies 3 \<and>
   read_model (example_copies\<lparr>variant_cells := (variant_cells example_copies)
       [6 := \<lparr>ident = ''And'', val = Some ''changed''\<rparr>]\<rparr>) 1 = read_model example_copies 1 \<and>
   read_model (example_copies\<lparr>variant_cells := (variant_cells example_copies)
       [6 := \<lparr>ident = ''And'', val = Some ''changed''\<rparr>]\<rparr>) 0 = read_model example_store 0"
proof -
  let ?h = "example_copies\<lparr>variant_cells := (variant_cells example_copies)
       [6 := \<lparr>ident = ''And'', val = Some ''changed''\<rparr>]\<rparr>"
  have wf: "wf_model example_store 0"
    by (simp add: wf_model_def points_of_def lists_of_def variants_of_def example_store_def)
  have mem: "6 \<in> variants_of example_copies 3"
    by (simp add: variants_of_def lists_of_def points_of_def example_copies_def)
  have ch: "changes_only ([1, 2, 3] ! 2) example_copies ?h"
    using changes_only_set_variant [OF mem] by simp
  have i: "2 < length [1, 2, 3 :: nat]" and j: "0 < length [1, 2, 3 :: nat]" "(0 :: nat) \<noteq> 2"
    by simp_all
  from specializer_isolation [OF wf example_run] i ch
  have "read_model ?h 0 = read_model example_store 0" and
    "\<forall>j < length [1, 2, 3 :: nat]. j \<noteq> 2 \<longrightarrow> read_model ?h ([1, 2, 3] ! j) = read_model example_copies ([1, 2, 3] ! j)"
    by blast+
  with j have r: "read_model ?h 0 = read_model example_store 0"
    "read_model ?h ([1, 2, 3] ! 0) = read_model example_copies ([1, 2, 3] ! 0)"
    by blast+
  have d: "read_model ?h 3 \<noteq> read_model example_copies 3"
    by (simp add: read_model_def read_point_def example_copies_def)
  from example_run r d show ?thesis by simp
qed

section \<open>The specializer on the store computes the renaming\<close>

text \<open>
  The specializer on a store of objects, with \<open>copy.deepcopy\<close> and the assignments in
  place, and the specializer on values compute the same models when no object of the
  model is shared: the run on the store raises when the run on values does, and the
  copies it returns hold the models that the run on values returns.
\<close>

lemma read_model_items: "read_model h d = read_items h (dict_cells h ! d)"
  by (simp add: read_model_def read_items_def)

lemma touched_trans:
  "touched P1 V1 h h1 \<Longrightarrow> touched P2 V2 h1 h2 \<Longrightarrow> touched (P1 \<union> P2) (V1 \<union> V2) h h2"
  by (auto simp: touched_def)

lemma touched_refl: "touched {} {} h h"
  by (simp add: touched_def)

lemma touched_mono: "touched P V h h' \<Longrightarrow> P \<subseteq> P' \<Longrightarrow> V \<subseteq> V' \<Longrightarrow> touched P' V' h h'"
  by (auto simp: touched_def)

lemma set_values_sim:
  "distinct rs \<Longrightarrow> \<forall>r \<in> set rs. r < length (variant_cells h) \<Longrightarrow>
   (case set_values i rs h of
      Inl e \<Rightarrow> rename_values i (map (\<lambda>r. variant_cells h ! r) rs) = Inl e
    | Inr h' \<Rightarrow>
        rename_values i (map (\<lambda>r. variant_cells h ! r) rs) = Inr (map (\<lambda>r. variant_cells h' ! r) rs) \<and>
        touched {} (set rs) h h')"
proof (induction rs arbitrary: h)
  case Nil
  show ?case by (simp add: touched_refl)
next
  case (Cons r rs)
  show ?case
  proof (cases "val (variant_cells h ! r)")
    case None
    then show ?thesis by (simp add: set_value_def)
  next
    case (Some s)
    let ?x = "(variant_cells h ! r)\<lparr>val := Some (replace ''Expr'' (''Expr'' @ str i) s)\<rparr>"
    let ?h1 = "h\<lparr>variant_cells := (variant_cells h)[r := ?x]\<rparr>"
    from Some have sv: "set_value i r h = Inr ?h1" by (simp add: set_value_def)
    from Cons.prems have r: "r \<notin> set rs" "r < length (variant_cells h)" by simp_all
    have "(variant_cells h)[r := ?x] ! a = variant_cells h ! a" if "a \<in> set rs" for a
    proof -
      from that r(1) have "r \<noteq> a" by blast
      then show ?thesis by simp
    qed
    then have same: "map (\<lambda>a. variant_cells ?h1 ! a) rs = map (\<lambda>a. variant_cells h ! a) rs"
      by simp
    have t1: "touched {} {r} h ?h1"
      by (simp add: touched_def nth_list_update)
    from Cons.prems have d: "distinct rs" "\<forall>a \<in> set rs. a < length (variant_cells ?h1)" by simp_all
    note ih = Cons.IH [OF d, unfolded same]
    show ?thesis
    proof (cases "set_values i rs ?h1")
      case (Inl e)
      with ih sv Some show ?thesis by simp
    next
      case (Inr h')
      with ih have rv: "rename_values i (map (\<lambda>a. variant_cells h ! a) rs)
          = Inr (map (\<lambda>a. variant_cells h' ! a) rs)" and t2: "touched {} (set rs) ?h1 h'"
        by simp_all
      from t2 r have "variant_cells h' ! r = ?x" by (simp add: touched_def)
      moreover from touched_trans [OF t1 t2] have "touched {} (set (r # rs)) h h'" by simp
      ultimately show ?thesis using Inr sv Some rv by simp
    qed
  qed
qed

lemma set_handler_touched:
  "p < length (point_cells h) \<Longrightarrow> touched {p} {} h (set_handler i p h)"
proof -
  assume p: "p < length (point_cells h)"
  have "cell_variants ((point_cells h)[p := (point_cells h ! p)\<lparr>cell_handler := x\<rparr>] ! a)
      = cell_variants (point_cells h ! a)" if "a < length (point_cells h)" for a x
    using that by (cases "a = p") simp_all
  moreover have "(point_cells h)[p := c] ! a = point_cells h ! a" if "a \<noteq> p" for a c
    using that by simp
  ultimately show ?thesis
    by (simp add: set_handler_def touched_def)
qed

lemma mutate_point_sim:
  assumes p: "p < length (point_cells h)"
    and d: "distinct (variants_at h p)"
    and b: "\<forall>v \<in> set (variants_at h p). v < length (variant_cells h)"
  shows "(case mutate_point i p h of
            Inl e \<Rightarrow> specialize_point i (read_point h p) = Inl e
          | Inr h' \<Rightarrow>
              specialize_point i (read_point h p) = Inr (read_point h' p) \<and>
              touched {p} (set (variants_at h p)) h h')"
proof (cases "cell_handler (point_cells h ! p) = ''Expr''")
  case False
  then show ?thesis
    by (simp add: mutate_point_def specialize_point_def read_point_def touched_def)
next
  case True
  let ?h0 = "set_handler i p h"
  let ?vs = "variants_at h p"
  have vc: "variant_cells ?h0 = variant_cells h" and lc: "list_cells ?h0 = list_cells h"
    by (simp_all add: set_handler_def)
  have pc: "point_cells ?h0 ! p = (point_cells h ! p)\<lparr>cell_handler :=
      (if i \<noteq> 0 then cell_handler (point_cells h ! p) @ str (i - 1)
       else cell_handler (point_cells h ! p))\<rparr>"
    using p by (simp add: set_handler_def)
  have run: "mutate_point i p h = set_values i ?vs ?h0"
    using True by (simp add: mutate_point_def variants_at_def)
  have vars: "variants (read_point h p) = map (\<lambda>v. variant_cells ?h0 ! v) ?vs"
    by (simp add: read_point_def variants_at_def vc)
  from b have b0: "\<forall>v \<in> set ?vs. v < length (variant_cells ?h0)" by (simp add: vc)
  note sim = set_values_sim [OF d b0, of i]
  show ?thesis
  proof (cases "set_values i ?vs ?h0")
    case (Inl e)
    with sim have "rename_values i (variants (read_point h p)) = Inl e"
      by (simp add: vars)
    with Inl run True show ?thesis
      by (simp add: specialize_point_def read_point_def)
  next
    case (Inr h')
    with sim have rv: "rename_values i (variants (read_point h p))
        = Inr (map (\<lambda>v. variant_cells h' ! v) ?vs)"
      and t: "touched {} (set ?vs) ?h0 h'"
      by (simp_all add: vars)
    from t have pc': "point_cells h' ! p = point_cells ?h0 ! p" and lc': "list_cells h' = list_cells h"
      by (simp_all add: touched_def lc)
    have "read_point h' p = (read_point h p)\<lparr>handler :=
        (if i \<noteq> 0 then handler (read_point h p) @ str (i - 1) else handler (read_point h p)),
        variants := map (\<lambda>v. variant_cells h' ! v) ?vs\<rparr>"
      by (simp add: read_point_def pc' pc lc' variants_at_def)
    moreover have "touched {p} (set ?vs) h h'"
      using touched_trans [OF set_handler_touched [OF p] t] by simp
    ultimately show ?thesis
      using Inr run True rv by (simp add: specialize_point_def read_point_def)
  qed
qed

lemma variants_at_touched:
  "touched P V h h' \<Longrightarrow> q < length (point_cells h) \<Longrightarrow> variants_at h' q = variants_at h q"
  by (simp add: touched_def variants_at_def)

lemma read_point_touched:
  assumes t: "touched P V h h'" and q: "q < length (point_cells h)" "q \<notin> P"
    and v: "set (variants_at h q) \<inter> V = {}"
  shows "read_point h' q = read_point h q"
proof -
  from t q have pc: "point_cells h' ! q = point_cells h ! q" by (simp add: touched_def)
  from t have lc: "list_cells h' = list_cells h" by (simp add: touched_def)
  have "variant_cells h' ! a = variant_cells h ! a" if "a \<in> set (variants_at h q)" for a
  proof -
    from that v have "a \<notin> V" by blast
    with t show ?thesis by (simp add: touched_def)
  qed
  then show ?thesis
    by (simp add: read_point_def pc lc variants_at_def)
qed

lemma unshared_touched:
  assumes t: "touched P V h h'" and u: "unshared_items h items"
  shows "unshared_items h' items"
proof -
  from u have inb: "\<forall>p \<in> snd ` set items. p < length (point_cells h)"
    by (simp add: unshared_items_def)
  have va: "variants_at h' p = variants_at h p" if "p \<in> snd ` set items" for p
    using that inb variants_at_touched [OF t] by blast
  have cv: "cell_variants (point_cells h' ! p) = cell_variants (point_cells h ! p)"
    if "p \<in> snd ` set items" for p
  proof -
    from that inb have "p < length (point_cells h)" by blast
    with t show ?thesis by (simp add: touched_def)
  qed
  have m1: "map (\<lambda>p. cell_variants (point_cells h' ! p)) (map snd items)
      = map (\<lambda>p. cell_variants (point_cells h ! p)) (map snd items)"
    using cv by simp
  have m2: "map (variants_at h') (map snd items) = map (variants_at h) (map snd items)"
    using va by simp
  from t have len: "length (point_cells h') = length (point_cells h)"
    "length (variant_cells h') = length (variant_cells h)" "list_cells h' = list_cells h"
    by (simp_all add: touched_def)
  show ?thesis
    using u unfolding unshared_items_def m1 m2 len
    by (simp add: va cv)
qed

lemma unshared_items_tail:
  "unshared_items h ((k, p) # rest) \<Longrightarrow> unshared_items h rest"
  by (simp add: unshared_items_def)

lemma unshared_items_head:
  assumes "unshared_items h ((k, p) # rest)"
  shows "p < length (point_cells h)" and "distinct (variants_at h p)"
    and "\<forall>v \<in> set (variants_at h p). v < length (variant_cells h)"
    and "p \<notin> snd ` set rest"
    and "\<forall>q \<in> snd ` set rest. set (variants_at h q) \<inter> set (variants_at h p) = {}"
  using assms by (auto simp: unshared_items_def)

lemma mutate_items_sim:
  "unshared_items h items \<Longrightarrow>
   (case mutate_items i items h of
      Inl e \<Rightarrow> specialize_items i (read_items h items) = Inl e
    | Inr h' \<Rightarrow>
        specialize_items i (read_items h items) = Inr (read_items h' items) \<and>
        touched (snd ` set items) (\<Union>p \<in> snd ` set items. set (variants_at h p)) h h')"
proof (induction items arbitrary: h)
  case Nil
  show ?case by (simp add: read_items_def touched_refl)
next
  case (Cons kp rest)
  obtain k p where kp: "kp = (k, p)" by (cases kp)
  note u = Cons.prems [unfolded kp]
  note hd = unshared_items_head [OF u]
  note sim = mutate_point_sim [OF hd(1,2,3), of i]
  show ?case
  proof (cases "mutate_point i p h")
    case (Inl e)
    with sim show ?thesis by (simp add: kp read_items_def)
  next
    case (Inr h1)
    with sim have sp: "specialize_point i (read_point h p) = Inr (read_point h1 p)"
      and t1: "touched {p} (set (variants_at h p)) h h1"
      by simp_all
    from unshared_items_tail [OF u] have ur: "unshared_items h rest" .
    then have inb: "\<forall>q \<in> snd ` set rest. q < length (point_cells h)"
      by (simp add: unshared_items_def)
    have u1: "unshared_items h1 rest" using t1 ur by (rule unshared_touched)
    have same: "read_point h1 q = read_point h q" if "q \<in> snd ` set rest" for q
    proof -
      from that inb have "q < length (point_cells h)" by blast
      moreover from that hd(4) have "q \<notin> {p}" by blast
      moreover from that hd(5) have "set (variants_at h q) \<inter> set (variants_at h p) = {}" by blast
      ultimately show ?thesis using t1 read_point_touched by blast
    qed
    have "read_point h1 (snd kr) = read_point h (snd kr)" if "kr \<in> set rest" for kr
      using that same by simp
    then have ri: "read_items h1 rest = read_items h rest"
      by (auto simp: read_items_def)
    have va1: "variants_at h1 q = variants_at h q" if "q \<in> snd ` set rest" for q
      using that inb variants_at_touched [OF t1] by blast
    note ih = Cons.IH [OF u1, unfolded ri]
    show ?thesis
    proof (cases "mutate_items i rest h1")
      case (Inl e)
      with ih Inr sp show ?thesis by (simp add: kp read_items_def)
    next
      case (Inr h2)
      with ih have sr: "specialize_items i (read_items h rest) = Inr (read_items h2 rest)"
        and t2: "touched (snd ` set rest) (\<Union>q \<in> snd ` set rest. set (variants_at h1 q)) h1 h2"
        by simp_all
      have vs: "(\<Union>q \<in> snd ` set rest. set (variants_at h1 q))
          = (\<Union>q \<in> snd ` set rest. set (variants_at h q))"
        using va1 by simp
      from t1 hd(1) have p1: "p < length (point_cells h1)" by (simp add: touched_def)
      from t1 hd(1) have vp: "variants_at h1 p = variants_at h p"
        by (rule variants_at_touched)
      have "set (variants_at h1 p) \<inter> (\<Union>q \<in> snd ` set rest. set (variants_at h1 q)) = {}"
        unfolding vs vp using hd(5) by blast
      from read_point_touched [OF t2 p1 hd(4) this]
      have keep: "read_point h2 p = read_point h1 p" .
      have t: "touched (snd ` set (kp # rest)) (\<Union>q \<in> snd ` set (kp # rest). set (variants_at h q)) h h2"
        using touched_trans [OF t1 t2 [unfolded vs]] by (simp add: kp)
      from \<open>mutate_point i p h = Inr h1\<close> Inr sp sr keep t show ?thesis
        by (simp add: kp read_items_def)
    qed
  qed
qed

lemma copy_variants_fresh:
  "distinct rs \<Longrightarrow> \<forall>r \<in> set rs. memo_variants m r = None \<and> r < length (variant_cells h) \<Longrightarrow>
   \<exists>m'. copy_variants rs (h, m) =
          ([length (variant_cells h) ..< length (variant_cells h) + length rs],
           h\<lparr>variant_cells := variant_cells h @ map (\<lambda>r. variant_cells h ! r) rs\<rparr>, m') \<and>
        memo_points m' = memo_points m \<and> memo_lists m' = memo_lists m \<and>
        (\<forall>r. r \<notin> set rs \<longrightarrow> memo_variants m' r = memo_variants m r)"
proof (induction rs arbitrary: h m)
  case Nil
  show ?case by simp
next
  case (Cons r rs)
  let ?n = "length (variant_cells h)"
  let ?h1 = "h\<lparr>variant_cells := variant_cells h @ [variant_cells h ! r]\<rparr>"
  let ?m1 = "m\<lparr>memo_variants := (memo_variants m)(r \<mapsto> ?n)\<rparr>"
  from Cons.prems have c1: "copy_variant r (h, m) = (?n, ?h1, ?m1)"
    by (simp add: copy_variant_def)
  from Cons.prems have d: "distinct rs"
    and m1: "\<forall>a \<in> set rs. memo_variants ?m1 a = None \<and> a < length (variant_cells ?h1)"
    by auto
  from Cons.IH [OF d m1] obtain m' where
    c2: "copy_variants rs (?h1, ?m1) =
          ([length (variant_cells ?h1) ..< length (variant_cells ?h1) + length rs],
           ?h1\<lparr>variant_cells := variant_cells ?h1 @ map (\<lambda>a. variant_cells ?h1 ! a) rs\<rparr>, m')"
    and f: "memo_points m' = memo_points ?m1" "memo_lists m' = memo_lists ?m1"
      "\<forall>a. a \<notin> set rs \<longrightarrow> memo_variants m' a = memo_variants ?m1 a"
    by blast
  have same: "map (\<lambda>a. variant_cells ?h1 ! a) rs = map (\<lambda>a. variant_cells h ! a) rs"
    using Cons.prems(2) by (simp add: nth_append)
  have upt: "?n # [length (variant_cells ?h1) ..< length (variant_cells ?h1) + length rs]
      = [?n ..< ?n + length (r # rs)]"
    by (simp add: upt_rec)
  have "copy_variants (r # rs) (h, m) =
      ([?n ..< ?n + length (r # rs)],
       h\<lparr>variant_cells := variant_cells h @ map (\<lambda>a. variant_cells h ! a) (r # rs)\<rparr>, m')"
    using c1 c2 [unfolded same] upt by simp
  moreover have "memo_points m' = memo_points m" "memo_lists m' = memo_lists m"
    "\<forall>a. a \<notin> set (r # rs) \<longrightarrow> memo_variants m' a = memo_variants m a"
    using f by simp_all
  ultimately show ?case by blast
qed

lemma copy_point_fresh:
  assumes p: "memo_points m p = None"
    and l: "memo_lists m (cell_variants (point_cells h ! p)) = None"
    and d: "distinct (variants_at h p)"
    and v: "\<forall>r \<in> set (variants_at h p). memo_variants m r = None \<and> r < length (variant_cells h)"
  shows "\<exists>m'. copy_point p (h, m) = (length (point_cells h), with_copy h p, m') \<and>
         (\<forall>q. q \<noteq> p \<longrightarrow> memo_points m' q = memo_points m q) \<and>
         (\<forall>x. x \<noteq> cell_variants (point_cells h ! p) \<longrightarrow> memo_lists m' x = memo_lists m x) \<and>
         (\<forall>r. r \<notin> set (variants_at h p) \<longrightarrow> memo_variants m' r = memo_variants m r)"
proof -
  let ?l = "cell_variants (point_cells h ! p)"
  let ?rs = "list_cells h ! ?l"
  have rs: "variants_at h p = ?rs" by (simp add: variants_at_def)
  from copy_variants_fresh [OF d v] obtain m1 where
    cv: "copy_variants ?rs (h, m) =
          ([length (variant_cells h) ..< length (variant_cells h) + length ?rs],
           h\<lparr>variant_cells := variant_cells h @ map (\<lambda>r. variant_cells h ! r) ?rs\<rparr>, m1)"
    and f1: "memo_points m1 = memo_points m" "memo_lists m1 = memo_lists m"
      "\<forall>r. r \<notin> set ?rs \<longrightarrow> memo_variants m1 r = memo_variants m r"
    unfolding rs by blast
  let ?h1 = "h\<lparr>variant_cells := variant_cells h @ map (\<lambda>r. variant_cells h ! r) ?rs\<rparr>"
  let ?h2 = "?h1\<lparr>list_cells := list_cells ?h1 @
      [[length (variant_cells h) ..< length (variant_cells h) + length ?rs]]\<rparr>"
  let ?m2 = "m1\<lparr>memo_lists := (memo_lists m1)(?l \<mapsto> length (list_cells ?h1))\<rparr>"
  have cl: "copy_list ?l (h, m) = (length (list_cells h), ?h2, ?m2)"
    using l cv by (simp add: copy_list_def)
  let ?m3 = "?m2\<lparr>memo_points := (memo_points ?m2)(p \<mapsto> length (point_cells ?h2))\<rparr>"
  have "copy_point p (h, m) = (length (point_cells h), with_copy h p, ?m3)"
    using p cl by (simp add: copy_point_def with_copy_def rs)
  moreover have "\<forall>q. q \<noteq> p \<longrightarrow> memo_points ?m3 q = memo_points m q"
    using f1 by simp
  moreover have "\<forall>x. x \<noteq> ?l \<longrightarrow> memo_lists ?m3 x = memo_lists m x"
    using f1 by simp
  moreover have "\<forall>r. r \<notin> set (variants_at h p) \<longrightarrow> memo_variants ?m3 r = memo_variants m r"
    using f1 by (simp add: rs)
  ultimately show ?thesis by blast
qed

lemma with_copy_extends: "extends h (with_copy h p)"
  by (simp add: extends_def with_copy_def nth_append)

lemma with_copy_read:
  assumes "\<forall>r \<in> set (variants_at h p). r < length (variant_cells h)"
  shows "read_point (with_copy h p) (length (point_cells h)) = read_point h p"
    and "variants_at (with_copy h p) (length (point_cells h))
       = [length (variant_cells h) ..< length (variant_cells h) + length (variants_at h p)]"
    and "cell_variants (point_cells (with_copy h p) ! length (point_cells h)) = length (list_cells h)"
proof -
  show va: "variants_at (with_copy h p) (length (point_cells h))
       = [length (variant_cells h) ..< length (variant_cells h) + length (variants_at h p)]"
    by (simp add: with_copy_def variants_at_def)
  show "cell_variants (point_cells (with_copy h p) ! length (point_cells h)) = length (list_cells h)"
    by (simp add: with_copy_def)
  have "map (\<lambda>v. variant_cells (with_copy h p) ! v)
          [length (variant_cells h) ..< length (variant_cells h) + length (variants_at h p)]
      = map (\<lambda>r. variant_cells h ! r) (variants_at h p)"
    by (rule nth_equalityI) (simp_all add: with_copy_def nth_append)
  then show "read_point (with_copy h p) (length (point_cells h)) = read_point h p"
    using va by (simp add: read_point_def with_copy_def variants_at_def)
qed

lemma point_extends:
  assumes e: "extends h h'" and p: "p < length (point_cells h)"
    and l: "cell_variants (point_cells h ! p) < length (list_cells h)"
    and v: "\<forall>v \<in> set (variants_at h p). v < length (variant_cells h)"
  shows "read_point h' p = read_point h p" and "variants_at h' p = variants_at h p"
    and "cell_variants (point_cells h' ! p) = cell_variants (point_cells h ! p)"
proof -
  from e p have pc: "point_cells h' ! p = point_cells h ! p" by (simp add: extends_def)
  from e l have lc: "list_cells h' ! cell_variants (point_cells h ! p)
      = list_cells h ! cell_variants (point_cells h ! p)" by (simp add: extends_def)
  show va: "variants_at h' p = variants_at h p" by (simp add: variants_at_def pc lc)
  show "cell_variants (point_cells h' ! p) = cell_variants (point_cells h ! p)" by (simp add: pc)
  have "variant_cells h' ! a = variant_cells h ! a" if "a \<in> set (variants_at h p)" for a
    using that v e by (simp add: extends_def)
  then show "read_point h' p = read_point h p"
    using va by (simp add: read_point_def pc variants_at_def)
qed

lemma unshared_extends:
  assumes u: "unshared_items h items" and e: "extends h h'"
  shows "unshared_items h' items" and "read_items h' items = read_items h items"
proof -
  from u have inb: "\<forall>p \<in> snd ` set items.
        p < length (point_cells h) \<and> cell_variants (point_cells h ! p) < length (list_cells h) \<and>
        (\<forall>v \<in> set (variants_at h p). v < length (variant_cells h))"
    by (simp add: unshared_items_def)
  have pe: "read_point h' p = read_point h p \<and> variants_at h' p = variants_at h p \<and>
      cell_variants (point_cells h' ! p) = cell_variants (point_cells h ! p)"
    if "p \<in> snd ` set items" for p
  proof -
    from that inb have "p < length (point_cells h)"
      "cell_variants (point_cells h ! p) < length (list_cells h)"
      "\<forall>v \<in> set (variants_at h p). v < length (variant_cells h)" by blast+
    from point_extends [OF e this] show ?thesis by simp
  qed
  have m1: "map (\<lambda>p. cell_variants (point_cells h' ! p)) (map snd items)
      = map (\<lambda>p. cell_variants (point_cells h ! p)) (map snd items)"
    using pe by simp
  have m2: "map (variants_at h') (map snd items) = map (variants_at h) (map snd items)"
    using pe by simp
  have "\<forall>p \<in> snd ` set items.
        p < length (point_cells h') \<and> cell_variants (point_cells h' ! p) < length (list_cells h') \<and>
        (\<forall>v \<in> set (variants_at h' p). v < length (variant_cells h'))"
  proof
    fix p assume p: "p \<in> snd ` set items"
    with inb have "p < length (point_cells h)"
      "cell_variants (point_cells h ! p) < length (list_cells h)"
      "\<forall>v \<in> set (variants_at h p). v < length (variant_cells h)" by blast+
    with e pe [OF p] show "p < length (point_cells h') \<and>
        cell_variants (point_cells h' ! p) < length (list_cells h') \<and>
        (\<forall>v \<in> set (variants_at h' p). v < length (variant_cells h'))"
      by (fastforce simp: extends_def)
  qed
  with u show "unshared_items h' items"
    unfolding unshared_items_def m1 m2 by blast
  have "read_point h' (snd kr) = read_point h (snd kr)" if "kr \<in> set items" for kr
    using that pe by simp
  then show "read_items h' items = read_items h items"
    by (auto simp: read_items_def)
qed

lemma copy_items_sim:
  "unshared_items h items \<Longrightarrow>
   \<forall>p \<in> snd ` set items. memo_points m p = None \<and>
      memo_lists m (cell_variants (point_cells h ! p)) = None \<and>
      (\<forall>v \<in> set (variants_at h p). memo_variants m v = None) \<Longrightarrow>
   copy_items items (h, m) = (items', h', m') \<Longrightarrow>
   extends h h' \<and> dict_cells h' = dict_cells h \<and>
   read_items h' items' = read_items h items \<and> unshared_items h' items' \<and>
   (\<forall>p' \<in> snd ` set items'.
      length (point_cells h) \<le> p' \<and> length (list_cells h) \<le> cell_variants (point_cells h' ! p') \<and>
      (\<forall>v \<in> set (variants_at h' p'). length (variant_cells h) \<le> v))"
proof (induction items arbitrary: h m items')
  case Nil
  then show ?case
    by (simp add: extends_refl read_items_def unshared_items_def)
next
  case (Cons kp rest)
  obtain k p where kp: "kp = (k, p)" by (cases kp)
  note u = Cons.prems(1) [unfolded kp]
  note hd = unshared_items_head [OF u]
  from u have lp: "cell_variants (point_cells h ! p) < length (list_cells h)"
    and dl: "cell_variants (point_cells h ! p) \<notin>
        (\<lambda>q. cell_variants (point_cells h ! q)) ` snd ` set rest"
    by (auto simp: unshared_items_def)
  from Cons.prems(2) kp have mp: "memo_points m p = None"
    "memo_lists m (cell_variants (point_cells h ! p)) = None"
    "\<forall>r \<in> set (variants_at h p). memo_variants m r = None \<and> r < length (variant_cells h)"
    using hd(3) by simp_all
  from copy_point_fresh [OF mp(1,2) hd(2) mp(3)] obtain m1 where
    c1: "copy_point p (h, m) = (length (point_cells h), with_copy h p, m1)"
    and f1: "\<forall>q. q \<noteq> p \<longrightarrow> memo_points m1 q = memo_points m q"
      "\<forall>x. x \<noteq> cell_variants (point_cells h ! p) \<longrightarrow> memo_lists m1 x = memo_lists m x"
      "\<forall>r. r \<notin> set (variants_at h p) \<longrightarrow> memo_variants m1 r = memo_variants m r"
    by blast
  let ?h1 = "with_copy h p"
  let ?p' = "length (point_cells h)"
  from Cons.prems(3) kp c1 obtain rest' where
    c2: "copy_items rest (?h1, m1) = (rest', h', m')" and items': "items' = (k, ?p') # rest'"
    by (auto split: prod.splits)
  have e1: "extends h ?h1" by (rule with_copy_extends)
  from unshared_items_tail [OF u] have ur: "unshared_items h rest" .
  note ur1 = unshared_extends [OF ur e1]
  have inb: "\<forall>q \<in> snd ` set rest.
        q < length (point_cells h) \<and> cell_variants (point_cells h ! q) < length (list_cells h) \<and>
        (\<forall>v \<in> set (variants_at h q). v < length (variant_cells h))"
    using ur by (simp add: unshared_items_def)
  have pe: "variants_at ?h1 q = variants_at h q \<and>
      cell_variants (point_cells ?h1 ! q) = cell_variants (point_cells h ! q)"
    if "q \<in> snd ` set rest" for q
  proof -
    from that inb have "q < length (point_cells h)"
      "cell_variants (point_cells h ! q) < length (list_cells h)"
      "\<forall>v \<in> set (variants_at h q). v < length (variant_cells h)" by blast+
    from point_extends(2,3) [OF e1 this] show ?thesis by simp
  qed
  from Cons.prems(2) have mr: "\<forall>q \<in> snd ` set rest. memo_points m q = None \<and>
      memo_lists m (cell_variants (point_cells h ! q)) = None \<and>
      (\<forall>v \<in> set (variants_at h q). memo_variants m v = None)"
    by simp
  have memo1: "\<forall>q \<in> snd ` set rest. memo_points m1 q = None \<and>
      memo_lists m1 (cell_variants (point_cells ?h1 ! q)) = None \<and>
      (\<forall>v \<in> set (variants_at ?h1 q). memo_variants m1 v = None)"
  proof
    fix q assume q: "q \<in> snd ` set rest"
    from mr q have mq: "memo_points m q = None"
      "memo_lists m (cell_variants (point_cells h ! q)) = None"
      "\<forall>v \<in> set (variants_at h q). memo_variants m v = None" by auto
    from q hd(4) have "q \<noteq> p" by blast
    with f1(1) mq(1) have a: "memo_points m1 q = None" by simp
    from q dl have "cell_variants (point_cells h ! q) \<noteq> cell_variants (point_cells h ! p)"
      by (metis imageI)
    with f1(2) mq(2) have b: "memo_lists m1 (cell_variants (point_cells h ! q)) = None"
      by simp
    have c: "memo_variants m1 v = None" if "v \<in> set (variants_at h q)" for v
    proof -
      from that q hd(5) have "v \<notin> set (variants_at h p)" by blast
      with f1(3) mq(3) that show ?thesis by simp
    qed
    from a b c pe [OF q] show "memo_points m1 q = None \<and>
      memo_lists m1 (cell_variants (point_cells ?h1 ! q)) = None \<and>
      (\<forall>v \<in> set (variants_at ?h1 q). memo_variants m1 v = None)"
      by simp
  qed
  from Cons.IH [OF ur1(1) memo1 c2]
  have e2: "extends ?h1 h'" and dc: "dict_cells h' = dict_cells ?h1"
    and rr: "read_items h' rest' = read_items ?h1 rest" and u': "unshared_items h' rest'"
    and fr: "\<forall>q' \<in> snd ` set rest'.
      length (point_cells ?h1) \<le> q' \<and> length (list_cells ?h1) \<le> cell_variants (point_cells h' ! q') \<and>
      (\<forall>v \<in> set (variants_at h' q'). length (variant_cells ?h1) \<le> v)"
    by simp_all
  note wc = with_copy_read [OF hd(3)]
  have len1: "length (point_cells ?h1) = Suc (length (point_cells h))"
    "length (list_cells ?h1) = Suc (length (list_cells h))"
    "length (variant_cells ?h1) = length (variant_cells h) + length (variants_at h p)"
    by (simp_all add: with_copy_def)
  have p1: "?p' < length (point_cells ?h1)"
    "cell_variants (point_cells ?h1 ! ?p') < length (list_cells ?h1)"
    "\<forall>v \<in> set (variants_at ?h1 ?p'). v < length (variant_cells ?h1)"
    by (simp_all add: wc(2,3) len1)
  note pe' = point_extends [OF e2 p1]
  have ext: "extends h h'" using e1 e2 by (rule extends_trans)
  have dict: "dict_cells h' = dict_cells h" by (simp add: dc with_copy_def)
  have reads: "read_items h' items' = read_items h (kp # rest)"
    using rr ur1(2) pe'(1) wc(1) by (simp add: items' kp read_items_def)
  have va': "variants_at h' ?p' = [length (variant_cells h) ..< length (variant_cells h) + length (variants_at h p)]"
    using pe'(2) wc(2) by simp
  have cv': "cell_variants (point_cells h' ! ?p') = length (list_cells h)"
    using pe'(3) wc(3) by simp
  have inb': "?p' < length (point_cells h') \<and> cell_variants (point_cells h' ! ?p') < length (list_cells h') \<and>
      (\<forall>v \<in> set (variants_at h' ?p'). v < length (variant_cells h'))"
  proof -
    from e2 have "length (point_cells ?h1) \<le> length (point_cells h')"
      "length (list_cells ?h1) \<le> length (list_cells h')"
      "length (variant_cells ?h1) \<le> length (variant_cells h')"
      by (simp_all add: extends_def)
    with len1 show ?thesis unfolding va' cv' by auto
  qed
  have d1: "?p' \<notin> snd ` set rest'"
    using fr len1(1) by fastforce
  have d2: "length (list_cells h) \<notin> (\<lambda>q. cell_variants (point_cells h' ! q)) ` snd ` set rest'"
    using fr len1(2) by fastforce
  have d3: "\<forall>q' \<in> snd ` set rest'. set (variants_at h' q') \<inter> set (variants_at h' ?p') = {}"
    using fr len1(3) by (fastforce simp: va')
  have un: "unshared_items h' items'"
    using u' inb' d1 d2 d3 unfolding unshared_items_def items'
    by (auto simp: cv' va')
  have fresh: "\<forall>p' \<in> snd ` set items'.
      length (point_cells h) \<le> p' \<and> length (list_cells h) \<le> cell_variants (point_cells h' ! p') \<and>
      (\<forall>v \<in> set (variants_at h' p'). length (variant_cells h) \<le> v)"
    using fr len1 by (fastforce simp: items' cv' va')
  from ext dict reads un fresh show ?case by (simp add: kp)
qed

lemma read_items_dict_cells [simp]: "read_items (h\<lparr>dict_cells := x\<rparr>) items = read_items h items"
  by (simp add: read_items_def read_point_def)

lemma variants_at_dict_cells [simp]: "variants_at (h\<lparr>dict_cells := x\<rparr>) = variants_at h"
  by (rule ext) (simp add: variants_at_def)

lemma unshared_items_dict_cells [simp]:
  "unshared_items (h\<lparr>dict_cells := x\<rparr>) items = unshared_items h items"
  by (simp add: unshared_items_def)

lemma deepcopy_sim:
  assumes u: "unshared_items h (dict_cells h ! d)" and run: "deepcopy d h = (d', h1)"
  shows "read_model h1 d' = read_model h d" and "unshared_items h1 (dict_cells h1 ! d')"
proof -
  obtain items' h2 m2 where c: "copy_items (dict_cells h ! d) (h, empty_memo) = (items', h2, m2)"
    by (cases "copy_items (dict_cells h ! d) (h, empty_memo)") auto
  have memo: "\<forall>p \<in> snd ` set (dict_cells h ! d). memo_points empty_memo p = None \<and>
      memo_lists empty_memo (cell_variants (point_cells h ! p)) = None \<and>
      (\<forall>v \<in> set (variants_at h p). memo_variants empty_memo v = None)"
    by (simp add: empty_memo_def)
  from copy_items_sim [OF u memo c]
  have r: "read_items h2 items' = read_items h (dict_cells h ! d)"
    and u2: "unshared_items h2 items'" by simp_all
  from run c have d': "d' = length (dict_cells h2)"
    and h1: "h1 = h2\<lparr>dict_cells := dict_cells h2 @ [items']\<rparr>"
    by (auto simp: deepcopy_def)
  have cell: "dict_cells h1 ! d' = items'" by (simp add: h1 d')
  show "read_model h1 d' = read_model h d"
    using r by (simp add: read_model_items cell) (simp add: h1)
  show "unshared_items h1 (dict_cells h1 ! d')"
    using u2 by (simp add: cell) (simp add: h1)
qed

lemma unshared_wf:
  assumes d: "d < length (dict_cells h)" and u: "unshared_items h (dict_cells h ! d)"
  shows "wf_model h d"
proof -
  from u have inb: "\<forall>p \<in> snd ` set (dict_cells h ! d).
        p < length (point_cells h) \<and> cell_variants (point_cells h ! p) < length (list_cells h) \<and>
        (\<forall>v \<in> set (variants_at h p). v < length (variant_cells h))"
    by (simp add: unshared_items_def)
  then have "\<forall>p \<in> points_of h d. p < length (point_cells h)"
    by (simp add: points_of_def)
  moreover from inb have "\<forall>l \<in> lists_of h d. l < length (list_cells h)"
    by (auto simp: lists_of_def points_of_def)
  moreover from inb have "\<forall>v \<in> variants_of h d. v < length (variant_cells h)"
    by (fastforce simp: variants_of_def lists_of_def points_of_def variants_at_def)
  ultimately show ?thesis using d by (simp add: wf_model_def)
qed

lemma copy_each_sim:
  "d < length (dict_cells h) \<Longrightarrow> unshared_items h (dict_cells h ! d) \<Longrightarrow>
   (case copy_each d i cfgs h of
      Inl e \<Rightarrow> specialize_each (read_model h d) i cfgs = Inl e
    | Inr (ds, h') \<Rightarrow> specialize_each (read_model h d) i cfgs = Inr (map (read_model h') ds))"
proof (induction cfgs arbitrary: i h)
  case Nil
  show ?case by simp
next
  case (Cons c cfgs)
  obtain d' h1 where copy: "deepcopy d h = (d', h1)" by (cases "deepcopy d h")
  note ds = deepcopy_sim [OF Cons.prems(2) copy]
  have ri: "read_items h1 (dict_cells h1 ! d') = read_model h d"
    using ds(1) by (simp add: read_model_items)
  note sim = mutate_items_sim [OF ds(2), of i, unfolded ri]
  show ?case
  proof (cases "mutate_items i (dict_cells h1 ! d') h1")
    case (Inl e)
    with sim copy show ?thesis by simp
  next
    case (Inr h2)
    with sim have si: "specialize_items i (read_model h d) = Inr (read_items h2 (dict_cells h1 ! d'))"
      and tc: "dict_cells h2 = dict_cells h1"
      by (simp_all add: touched_def)
    then have si': "specialize_items i (read_model h d) = Inr (read_model h2 d')"
      by (simp add: read_model_items)
    from iteration_occupies [OF copy Inr]
    have e2: "extends h h2" and o2: "occupies h h2 h2 d'" by simp_all
    from e2 Cons.prems(1) have d2: "d < length (dict_cells h2)"
      and dc2: "dict_cells h2 ! d = dict_cells h ! d"
      by (simp_all add: extends_def)
    note ue = unshared_extends [OF Cons.prems(2) e2]
    have u2: "unshared_items h2 (dict_cells h2 ! d)" using ue(1) by (simp add: dc2)
    have r2: "read_model h2 d = read_model h d" using ue(2) by (simp add: read_model_items dc2)
    note ih = Cons.IH [OF d2 u2, of "Suc i", unfolded r2]
    show ?thesis
    proof (cases "copy_each d (Suc i) cfgs h2")
      case (Inl e)
      with ih copy \<open>mutate_items i (dict_cells h1 ! d') h1 = Inr h2\<close> si' show ?thesis by simp
    next
      case (Inr r)
      obtain ds h3 where r: "r = (ds, h3)" by (cases r)
      with Inr ih have se: "specialize_each (read_model h d) (Suc i) cfgs = Inr (map (read_model h3) ds)"
        by simp
      from unshared_wf [OF d2 u2] have wf2: "wf_model h2 d" .
      from copy_each_separate [OF wf2 Inr [unfolded r]] have e3: "extends h2 h3" by simp
      from o2 have "wf_model h2 d'" by (rule occupies_wf)
      from wf_extends(1) [OF this e3] have "read_model h3 d' = read_model h2 d'" .
      with Inr r copy \<open>mutate_items i (dict_cells h1 ! d') h1 = Inr h2\<close> si' se show ?thesis
        by simp
    qed
  qed
qed

lemma store_specializer_reads:
  "d < length (dict_cells h) \<Longrightarrow> unshared_items h (dict_cells h ! d) \<Longrightarrow>
   (case mapping_model_by_configurations_store d cfgs h of
      Inl e \<Rightarrow> mapping_model_by_configurations (read_model h d) cfgs = Inl e
    | Inr (ds, h') \<Rightarrow>
        mapping_model_by_configurations (read_model h d) cfgs = Inr (map (read_model h') ds))"
  unfolding mapping_model_by_configurations_store_def mapping_model_by_configurations_def
  by (rule copy_each_sim)

section \<open>The specializer: what it returns\<close>

text \<open>
  C2, as the code has it. For a mapping model in which the variants of the variation
  points with the handler \<open>Expr\<close> have values, \<open>mapping_model_by_configurations\<close> returns
  one specialized model per configuration. At the indices 0, 1 and 2 the variation
  points with the handler \<open>Expr\<close> get the handlers \<open>Expr\<close>, \<open>Expr0\<close> and \<open>Expr1\<close>, and
  \<open>Expr\<close> becomes \<open>Expr0\<close>, \<open>Expr1\<close> and \<open>Expr2\<close> in the values of their variants; at an
  index \<open>i\<close> the handler takes \<open>i - 1\<close> and the values take \<open>i\<close>. The other variation
  points are unchanged. On a store of objects the copies that the function returns
  hold these models, when every variation point and every variant of the model is an
  object of its own.
\<close>

theorem specializer_renames_expr:
  assumes "expr_values_present mm"
  shows "\<exists>ms. mapping_model_by_configurations mm cfgs = Inr ms \<and> length ms = length cfgs \<and>
     (0 < length cfgs \<longrightarrow> ms ! 0 = map (\<lambda>(k, vp). (k, specialized ''Expr'' ''Expr0'' vp)) mm) \<and>
     (1 < length cfgs \<longrightarrow> ms ! 1 = map (\<lambda>(k, vp). (k, specialized ''Expr0'' ''Expr1'' vp)) mm) \<and>
     (2 < length cfgs \<longrightarrow> ms ! 2 = map (\<lambda>(k, vp). (k, specialized ''Expr1'' ''Expr2'' vp)) mm) \<and>
     (\<forall>i < length cfgs. ms ! i = specialized_model i mm) \<and>
     (\<forall>h d. d < length (dict_cells h) \<and> unshared_items h (dict_cells h ! d) \<and>
          read_model h d = mm \<longrightarrow>
        (\<exists>ds h'. mapping_model_by_configurations_store d cfgs h = Inr (ds, h') \<and>
           map (read_model h') ds = ms))"
proof -
  let ?ms = "map (\<lambda>j. specialized_model j mm) [0 ..< 0 + length cfgs]"
  have run: "mapping_model_by_configurations mm cfgs = Inr ?ms"
    unfolding mapping_model_by_configurations_def by (rule specialize_each_present [OF assms])
  have len: "length ?ms = length cfgs" by simp
  have nth: "\<forall>i < length cfgs. ?ms ! i = specialized_model i mm" by simp
  have m0: "specialized_model 0 mm = map (\<lambda>(k, vp). (k, specialized ''Expr'' ''Expr0'' vp)) mm"
    by (simp add: specialized_model_def str_small)
  have m1: "specialized_model 1 mm = map (\<lambda>(k, vp). (k, specialized ''Expr0'' ''Expr1'' vp)) mm"
    by (simp add: specialized_model_def str_small)
  have m2: "specialized_model 2 mm = map (\<lambda>(k, vp). (k, specialized ''Expr1'' ''Expr2'' vp)) mm"
    by (simp add: specialized_model_def str_small)
  have i0: "0 < length cfgs \<longrightarrow> ?ms ! 0 = map (\<lambda>(k, vp). (k, specialized ''Expr'' ''Expr0'' vp)) mm"
    using nth unfolding m0 [symmetric] by blast
  have i1: "1 < length cfgs \<longrightarrow> ?ms ! 1 = map (\<lambda>(k, vp). (k, specialized ''Expr0'' ''Expr1'' vp)) mm"
    using nth unfolding m1 [symmetric] by blast
  have i2: "2 < length cfgs \<longrightarrow> ?ms ! 2 = map (\<lambda>(k, vp). (k, specialized ''Expr1'' ''Expr2'' vp)) mm"
    using nth unfolding m2 [symmetric] by blast
  have store: "\<exists>ds h'. mapping_model_by_configurations_store d cfgs h = Inr (ds, h') \<and>
      map (read_model h') ds = ?ms"
    if d: "d < length (dict_cells h)" and u: "unshared_items h (dict_cells h ! d)"
      and r: "read_model h d = mm" for h :: "'a store" and d
  proof (cases "mapping_model_by_configurations_store d cfgs h")
    case (Inl e)
    with store_specializer_reads [OF d u, of cfgs] run r show ?thesis by simp
  next
    case (Inr res)
    obtain ds h' where res: "res = (ds, h')" by (cases res)
    from store_specializer_reads [OF d u, of cfgs] Inr res run r
    have "map (read_model h') ds = ?ms" by simp
    with Inr res show ?thesis by blast
  qed
  show ?thesis
  proof (intro exI [of _ ?ms] conjI)
    show "\<forall>h d. d < length (dict_cells h) \<and> unshared_items h (dict_cells h ! d) \<and>
          read_model h d = mm \<longrightarrow>
        (\<exists>ds h'. mapping_model_by_configurations_store d cfgs h = Inr (ds, h') \<and>
           map (read_model h') ds = ?ms)"
      using store by blast
  qed (rule run len i0 i1 i2 nth)+
qed

theorem specializer_renames_expr_witness:
  "\<exists>ms. mapping_model_by_configurations
       [(''Expr'', \<lparr>feature = ''Expr'', handler = ''Expr'',
                    variants = [\<lparr>ident = ''And'', val = Some ''(Expr And Expr)''\<rparr>]\<rparr>),
        (''Op'', \<lparr>feature = ''Op'', handler = ''Op'',
                  variants = [\<lparr>ident = ''Add'', val = None\<rparr>]\<rparr>)]
       [Map.empty :: string configuration, Map.empty, Map.empty] = Inr ms \<and>
     length ms = 3 \<and>
     ms ! 0 = [(''Expr'', \<lparr>feature = ''Expr'', handler = ''Expr'',
                    variants = [\<lparr>ident = ''And'', val = Some ''(Expr0 And Expr0)''\<rparr>]\<rparr>),
               (''Op'', \<lparr>feature = ''Op'', handler = ''Op'',
                  variants = [\<lparr>ident = ''Add'', val = None\<rparr>]\<rparr>)] \<and>
     ms ! 1 = [(''Expr'', \<lparr>feature = ''Expr'', handler = ''Expr0'',
                    variants = [\<lparr>ident = ''And'', val = Some ''(Expr1 And Expr1)''\<rparr>]\<rparr>),
               (''Op'', \<lparr>feature = ''Op'', handler = ''Op'',
                  variants = [\<lparr>ident = ''Add'', val = None\<rparr>]\<rparr>)] \<and>
     ms ! 2 = [(''Expr'', \<lparr>feature = ''Expr'', handler = ''Expr1'',
                    variants = [\<lparr>ident = ''And'', val = Some ''(Expr2 And Expr2)''\<rparr>]\<rparr>),
               (''Op'', \<lparr>feature = ''Op'', handler = ''Op'',
                  variants = [\<lparr>ident = ''Add'', val = None\<rparr>]\<rparr>)] \<and>
     read_model example_store 0 =
       [(''Expr'', \<lparr>feature = ''Expr'', handler = ''Expr'',
                    variants = [\<lparr>ident = ''And'', val = Some ''(Expr And Expr)''\<rparr>]\<rparr>),
        (''Op'', \<lparr>feature = ''Op'', handler = ''Op'',
                  variants = [\<lparr>ident = ''Add'', val = None\<rparr>]\<rparr>)] \<and>
     mapping_model_by_configurations_store 0 [Map.empty, Map.empty, Map.empty] example_store =
       Inr ([1, 2, 3], example_copies) \<and>
     map (read_model example_copies) [1, 2, 3] = ms"
proof -
  let ?mm = "[(''Expr'', \<lparr>feature = ''Expr'', handler = ''Expr'',
                    variants = [\<lparr>ident = ''And'', val = Some ''(Expr And Expr)''\<rparr>]\<rparr>),
        (''Op'', \<lparr>feature = ''Op'', handler = ''Op'',
                  variants = [\<lparr>ident = ''Add'', val = None\<rparr>]\<rparr>)]"
  let ?cfgs = "[Map.empty :: string configuration, Map.empty, Map.empty]"
  have present: "expr_values_present ?mm"
    by (simp add: expr_values_present_def)
  have d: "0 < length (dict_cells example_store)"
    by (simp add: example_store_def)
  have u: "unshared_items example_store (dict_cells example_store ! 0)"
    by (simp add: unshared_items_def variants_at_def example_store_def)
  have r: "read_model example_store 0 = ?mm"
    by (simp add: read_model_def read_point_def example_store_def)
  from specializer_renames_expr [OF present, of ?cfgs]
  obtain ms where run: "mapping_model_by_configurations ?mm ?cfgs = Inr ms"
    and len: "length ms = length ?cfgs"
    and m0: "ms ! 0 = map (\<lambda>(k, vp). (k, specialized ''Expr'' ''Expr0'' vp)) ?mm"
    and m1: "ms ! 1 = map (\<lambda>(k, vp). (k, specialized ''Expr0'' ''Expr1'' vp)) ?mm"
    and m2: "ms ! 2 = map (\<lambda>(k, vp). (k, specialized ''Expr1'' ''Expr2'' vp)) ?mm"
    and st: "\<forall>h d. d < length (dict_cells h) \<and> unshared_items h (dict_cells h ! d) \<and>
          read_model h d = ?mm \<longrightarrow>
        (\<exists>ds h'. mapping_model_by_configurations_store d ?cfgs h = Inr (ds, h') \<and>
           map (read_model h') ds = ms)"
    by auto
  from st d u r obtain ds h'
    where "mapping_model_by_configurations_store 0 ?cfgs example_store = Inr (ds, h')"
      and "map (read_model h') ds = ms"
    by blast
  with example_run have reads: "map (read_model example_copies) [1, 2, 3] = ms"
    by simp
  have "length ms = 3 \<and>
     ms ! 0 = map (\<lambda>(k, vp). (k, specialized ''Expr'' ''Expr0'' vp)) ?mm \<and>
     ms ! 1 = map (\<lambda>(k, vp). (k, specialized ''Expr0'' ''Expr1'' vp)) ?mm \<and>
     ms ! 2 = map (\<lambda>(k, vp). (k, specialized ''Expr1'' ''Expr2'' vp)) ?mm"
    using len m0 m1 m2 by simp
  then have shape: "length ms = 3 \<and>
     ms ! 0 = [(''Expr'', \<lparr>feature = ''Expr'', handler = ''Expr'',
                    variants = [\<lparr>ident = ''And'', val = Some ''(Expr0 And Expr0)''\<rparr>]\<rparr>),
               (''Op'', \<lparr>feature = ''Op'', handler = ''Op'',
                  variants = [\<lparr>ident = ''Add'', val = None\<rparr>]\<rparr>)] \<and>
     ms ! 1 = [(''Expr'', \<lparr>feature = ''Expr'', handler = ''Expr0'',
                    variants = [\<lparr>ident = ''And'', val = Some ''(Expr1 And Expr1)''\<rparr>]\<rparr>),
               (''Op'', \<lparr>feature = ''Op'', handler = ''Op'',
                  variants = [\<lparr>ident = ''Add'', val = None\<rparr>]\<rparr>)] \<and>
     ms ! 2 = [(''Expr'', \<lparr>feature = ''Expr'', handler = ''Expr1'',
                    variants = [\<lparr>ident = ''And'', val = Some ''(Expr2 And Expr2)''\<rparr>]\<rparr>),
               (''Op'', \<lparr>feature = ''Op'', handler = ''Op'',
                  variants = [\<lparr>ident = ''Add'', val = None\<rparr>]\<rparr>)]"
    by (simp add: specialized_def replace_example)
  show ?thesis
    using run shape r example_run reads by (intro exI [of _ ms]) blast
qed

theorem specializer_null_value_counterexample:
  "mapping_model_by_configurations
     [(''Expr'', \<lparr>feature = ''Expr'', handler = ''Expr'',
                  variants = [\<lparr>ident = ''Not'', val = Some ''not Expr''\<rparr>,
                              \<lparr>ident = ''Var'', val = None\<rparr>]\<rparr>)]
     [Map.empty :: string configuration, Map.empty, Map.empty] = Inl AttributeError \<and>
   mapping_model_by_configurations_store 0 [Map.empty :: string configuration] aliased_store =
     Inr ([1], aliased_copy) \<and>
   read_model aliased_copy 1 =
     [(''Expr'', \<lparr>feature = ''Expr'', handler = ''Expr'',
                  variants = [\<lparr>ident = ''And'', val = Some ''(Expr00 And Expr00)''\<rparr>]\<rparr>),
      (''Alias'', \<lparr>feature = ''Expr'', handler = ''Expr'',
                   variants = [\<lparr>ident = ''And'', val = Some ''(Expr00 And Expr00)''\<rparr>]\<rparr>)]"
proof (intro conjI)
  show "mapping_model_by_configurations
     [(''Expr'', \<lparr>feature = ''Expr'', handler = ''Expr'',
                  variants = [\<lparr>ident = ''Not'', val = Some ''not Expr''\<rparr>,
                              \<lparr>ident = ''Var'', val = None\<rparr>]\<rparr>)]
     [Map.empty :: string configuration, Map.empty, Map.empty] = Inl AttributeError"
    by (simp add: mapping_model_by_configurations_def specialize_point_def)
  show "mapping_model_by_configurations_store 0 [Map.empty :: string configuration] aliased_store =
     Inr ([1], aliased_copy)"
    by code_simp
  show "read_model aliased_copy 1 =
     [(''Expr'', \<lparr>feature = ''Expr'', handler = ''Expr'',
                  variants = [\<lparr>ident = ''And'', val = Some ''(Expr00 And Expr00)''\<rparr>]\<rparr>),
      (''Alias'', \<lparr>feature = ''Expr'', handler = ''Expr'',
                   variants = [\<lparr>ident = ''And'', val = Some ''(Expr00 And Expr00)''\<rparr>]\<rparr>)]"
    by (simp add: read_model_def read_point_def aliased_copy_def)
qed

text \<open>
  C10. When a variation point with the handler \<open>Expr\<close> has a variant with the null
  value, the body of the specializer's loop raises \<open>AttributeError\<close> at every index
  (index 0 too), and so does \<open>mapping_model_by_configurations\<close> when there is a
  configuration, also on a store of objects in which every variation point and every
  variant of the model is an object of its own. The function returns exactly when
  there is no configuration or no such variant.
\<close>

theorem specializer_raises_on_null_value:
  "((k, vp) \<in> set mm \<and> handler vp = ''Expr'' \<and> x \<in> set (variants vp) \<and> val x = None \<longrightarrow>
      (\<forall>i. specialize_items i mm = Inl AttributeError) \<and>
      (cfgs \<noteq> [] \<longrightarrow> mapping_model_by_configurations mm cfgs = Inl AttributeError \<and>
         (\<forall>h d. d < length (dict_cells h) \<and> unshared_items h (dict_cells h ! d) \<and>
              read_model h d = mm \<longrightarrow>
            mapping_model_by_configurations_store d cfgs h = Inl AttributeError))) \<and>
   ((\<exists>ms. mapping_model_by_configurations mm cfgs = Inr ms) \<longleftrightarrow>
      cfgs = [] \<or> expr_values_present mm)"
proof (rule conjI)
  show "(k, vp) \<in> set mm \<and> handler vp = ''Expr'' \<and> x \<in> set (variants vp) \<and> val x = None \<longrightarrow>
      (\<forall>i. specialize_items i mm = Inl AttributeError) \<and>
      (cfgs \<noteq> [] \<longrightarrow> mapping_model_by_configurations mm cfgs = Inl AttributeError \<and>
         (\<forall>h d. d < length (dict_cells h) \<and> unshared_items h (dict_cells h ! d) \<and>
              read_model h d = mm \<longrightarrow>
            mapping_model_by_configurations_store d cfgs h = Inl AttributeError))"
  proof (rule impI)
    assume "(k, vp) \<in> set mm \<and> handler vp = ''Expr'' \<and> x \<in> set (variants vp) \<and> val x = None"
    then have absent: "\<not> expr_values_present mm"
      using null_value_not_present by blast
    have items: "\<forall>i. specialize_items i mm = Inl AttributeError"
      using absent by (simp add: specialize_items_null)
    have run: "mapping_model_by_configurations mm cfgs = Inl AttributeError" if "cfgs \<noteq> []"
      using absent that by (simp add: specialize_each_null mapping_model_by_configurations_def)
    have store: "mapping_model_by_configurations_store d cfgs h = Inl AttributeError"
      if ne: "cfgs \<noteq> []" and d: "d < length (dict_cells h)"
        and u: "unshared_items h (dict_cells h ! d)" and r: "read_model h d = mm"
      for h :: "'a store" and d
    proof (cases "mapping_model_by_configurations_store d cfgs h")
      case (Inl e)
      with store_specializer_reads [OF d u, of cfgs] run [OF ne] r show ?thesis by simp
    next
      case (Inr res)
      obtain ds h' where res: "res = (ds, h')" by (cases res)
      from store_specializer_reads [OF d u, of cfgs] Inr res run [OF ne] r
      show ?thesis by simp
    qed
    show "(\<forall>i. specialize_items i mm = Inl AttributeError) \<and>
      (cfgs \<noteq> [] \<longrightarrow> mapping_model_by_configurations mm cfgs = Inl AttributeError \<and>
         (\<forall>h d. d < length (dict_cells h) \<and> unshared_items h (dict_cells h ! d) \<and>
              read_model h d = mm \<longrightarrow>
            mapping_model_by_configurations_store d cfgs h = Inl AttributeError))"
      using items run store by blast
  qed
next
  show "(\<exists>ms. mapping_model_by_configurations mm cfgs = Inr ms) \<longleftrightarrow>
      cfgs = [] \<or> expr_values_present mm"
  proof (cases "expr_values_present mm")
    case True
    then show ?thesis
      by (simp add: mapping_model_by_configurations_def specialize_each_present)
  next
    case False
    show ?thesis
    proof (cases "cfgs = []")
      case True
      then show ?thesis by (simp add: mapping_model_by_configurations_def)
    next
      case nonempty: False
      with False show ?thesis
        by (simp add: mapping_model_by_configurations_def specialize_each_null)
    qed
  qed
qed

theorem specializer_raises_on_null_value_witness:
  "specialize_items 0
     [(''Expr'', \<lparr>feature = ''Expr'', handler = ''Expr'',
                  variants = [\<lparr>ident = ''And'', val = Some ''(Expr And Expr)''\<rparr>,
                              \<lparr>ident = ''Lit'', val = None\<rparr>]\<rparr>)] = Inl AttributeError \<and>
   specialize_items 7
     [(''Expr'', \<lparr>feature = ''Expr'', handler = ''Expr'',
                  variants = [\<lparr>ident = ''And'', val = Some ''(Expr And Expr)''\<rparr>,
                              \<lparr>ident = ''Lit'', val = None\<rparr>]\<rparr>)] = Inl AttributeError \<and>
   mapping_model_by_configurations
     [(''Expr'', \<lparr>feature = ''Expr'', handler = ''Expr'',
                  variants = [\<lparr>ident = ''And'', val = Some ''(Expr And Expr)''\<rparr>,
                              \<lparr>ident = ''Lit'', val = None\<rparr>]\<rparr>)]
     [Map.empty :: string configuration] = Inl AttributeError \<and>
   mapping_model_by_configurations_store 0 [Map.empty :: string configuration] null_store =
     Inl AttributeError"
proof -
  let ?vp = "\<lparr>feature = ''Expr'', handler = ''Expr'',
                  variants = [\<lparr>ident = ''And'', val = Some ''(Expr And Expr)''\<rparr>,
                              \<lparr>ident = ''Lit'', val = None\<rparr>]\<rparr>"
  have h: "(''Expr'', ?vp) \<in> set [(''Expr'', ?vp)] \<and> handler ?vp = ''Expr'' \<and>
      \<lparr>ident = ''Lit'', val = None\<rparr> \<in> set (variants ?vp) \<and> val \<lparr>ident = ''Lit'', val = None\<rparr> = None"
    by simp
  have ne: "[Map.empty :: string configuration] \<noteq> []" by simp
  have d: "0 < length (dict_cells null_store)"
    by (simp add: null_store_def)
  have u: "unshared_items null_store (dict_cells null_store ! 0)"
    by (simp add: unshared_items_def variants_at_def null_store_def)
  have r: "read_model null_store 0 = [(''Expr'', ?vp)]"
    by (simp add: read_model_def read_point_def null_store_def)
  from specializer_raises_on_null_value
    [of "''Expr''" ?vp "[(''Expr'', ?vp)]" "\<lparr>ident = ''Lit'', val = None\<rparr>"
        "[Map.empty :: string configuration]"] h ne d u r
  show ?thesis by blast
qed

end
